theory Spec2Isabelle
  imports Main "HOL-Library.Char_ord" "HOL-Library.List_Lexorder" "HOL-Library.AList"
    "HOL-Library.Word"
begin

text \<open>
  A model of \<^verbatim>\<open>abide\<close>, a Go package for snapshot testing: a test hands over the text
  of a value under an identifier; the package stores it in a snapshot file on the first
  run and compares against the stored text on later runs.

  The theory follows the sources: the library functions the program calls
  (\<^verbatim>\<open>strings\<close>, \<^verbatim>\<open>path/filepath\<close>), the content-type test and the HTTP dump
  (assert\_http.go), the key substitution (json.go), the snapshot records with their
  file format, the registry with its loading, saving and cleanup, and the assertion
  itself.  Package variables, the file system and the test handle are fields of an
  explicit state that each function takes and returns.  The statements about the
  program come after the definitions.
\<close>

section \<open>Failures\<close>

text \<open>
  Go reports failure in two ways: an \<^verbatim>\<open>error\<close> value returned to the caller, and a
  run-time panic.  Both are values of one type here, so that every early return and
  every panic of the source is a branch of the model.
\<close>

datatype failure =
    PanicIndexOutOfRange nat nat
  | PanicNilMap
  | PanicNilDereference
  | PanicError failure
  | ErrUnableToLocateTestPath
  | ErrUnableToCreateSnapshotDirectory
  | ErrInvalidSnapshotID
  | ErrUnusedSnapshots nat
  | ErrOS string string
  | ErrJSON string
  | ErrConfig string
  | TestFatal failure
  | SharingNotModelled

text \<open>
  \<open>ErrUnusedSnapshots n\<close> is \<^verbatim>\<open>fmt.Errorf("%d unused snapshots", n)\<close>; \<open>ErrOS op path\<close>
  is an error of the operating system, \<open>ErrJSON\<close> one of the JSON codec and
  \<open>ErrConfig\<close> one of \<^verbatim>\<open>getConfig\<close>; \<open>PanicError e\<close> is \<^verbatim>\<open>panic(e)\<close> and
  \<open>TestFatal e\<close> is \<^verbatim>\<open>t.Fatal(e)\<close>, which ends the running test.
  \<open>SharingNotModelled\<close> is no failure of the program: it marks the one place where the
  model stops because the source goes on with objects that several places share (see
  \<^verbatim>\<open>jsonBodyCleanup\<close> below).

  A function that can panic or end the test returns \<open>failure + 'a\<close>: \<open>Inl\<close> when it
  does not return, \<open>Inr\<close> with its return values otherwise.  A Go result
  \<^verbatim>\<open>(T, error)\<close> is a pair whose second component is \<open>None\<close> for a nil error.
\<close>

text \<open>\<^verbatim>\<open>a[i]\<close> on a slice: a panic when \<open>i\<close> is out of range.\<close>

definition index :: "'a list \<Rightarrow> nat \<Rightarrow> failure + 'a" where
  "index a i = (if i < length a then Inr (a ! i) else Inl (PanicIndexOutOfRange i (length a)))"

section \<open>The functions of package \<^verbatim>\<open>strings\<close> the program calls\<close>

text \<open>
  A Go string is a sequence of bytes; \<^typ>\<open>string\<close> is a list of \<^typ>\<open>char\<close>, one per byte.
\<close>

abbreviation NL :: char where "NL \<equiv> CHR 0x0A"

definition HasPrefix :: "string \<Rightarrow> string \<Rightarrow> bool" where
  "HasPrefix s prefix = (length prefix \<le> length s \<and> take (length prefix) s = prefix)"

definition HasSuffix :: "string \<Rightarrow> string \<Rightarrow> bool" where
  "HasSuffix s suffix = (length suffix \<le> length s \<and> drop (length s - length suffix) s = suffix)"

definition TrimSuffix :: "string \<Rightarrow> string \<Rightarrow> string" where
  "TrimSuffix s suffix = (if HasSuffix s suffix then take (length s - length suffix) s else s)"

text \<open>\<^verbatim>\<open>strings.Index\<close>: the first position of \<open>sep\<close> in \<open>s\<close>; \<open>None\<close> is Go's \<open>-1\<close>.\<close>

fun Index :: "string \<Rightarrow> string \<Rightarrow> nat option" where
  "Index [] sep = (if sep = [] then Some 0 else None)"
| "Index (c # s) sep = (if HasPrefix (c # s) sep then Some 0 else map_option Suc (Index s sep))"

text \<open>
  \<^verbatim>\<open>strings.Count\<close>: the number of non-overlapping instances of \<open>sep\<close>.  For the empty
  separator Go counts runes; every separator of this program is a non-empty constant,
  and the model counts bytes there.
\<close>

function Count :: "string \<Rightarrow> string \<Rightarrow> nat" where
  "Count s sep =
     (if sep = [] then length s + 1
      else case Index s sep of
             None \<Rightarrow> 0
           | Some i \<Rightarrow> Suc (Count (drop (i + length sep) s) sep))"
  by pat_completeness auto
termination
proof (relation "measure (\<lambda>(s, sep). length s)")
  show "wf (measure (\<lambda>(s, sep). length s))" by simp
next
  fix s sep :: string and i
  have bound: "Index t sep = Some j \<Longrightarrow> j + length sep \<le> length t" for t j
    by (induction t arbitrary: j) (auto simp: HasPrefix_def split: if_splits)
  assume "sep \<noteq> []" and "Index s sep = Some i"
  then have "i + length sep \<le> length s" and "0 < length sep"
    by (simp_all add: bound)
  then show "((drop (i + length sep) s, sep), (s, sep)) \<in> measure (\<lambda>(s, sep). length s)"
    by (cases sep) simp_all
qed

declare Count.simps [simp del]

text \<open>
  The loop of \<^verbatim>\<open>genSplit\<close>: \<open>k\<close> is the number of cuts still allowed (\<open>n - 1 - i\<close> in the
  source), \<open>sepSave\<close> how many bytes of the separator stay with the piece before it.
\<close>

fun splitLoop :: "string \<Rightarrow> string \<Rightarrow> nat \<Rightarrow> nat \<Rightarrow> string list" where
  "splitLoop s sep sepSave 0 = [s]"
| "splitLoop s sep sepSave (Suc k) =
     (case Index s sep of
        None \<Rightarrow> [s]
      | Some m \<Rightarrow> take (m + sepSave) s # splitLoop (drop (m + length sep) s) sep sepSave k)"

text \<open>
  \<^verbatim>\<open>genSplit(s, sep, sepSave, n)\<close>; \<open>n\<close> is \<open>None\<close> for a negative count (all pieces).
  The empty separator (Go explodes \<open>s\<close> into runes) is not used by this program; the
  model gives one piece per byte there.
\<close>

definition genSplit :: "string \<Rightarrow> string \<Rightarrow> nat \<Rightarrow> nat option \<Rightarrow> string list" where
  "genSplit s sep sepSave n =
     (if n = Some 0 then []
      else if sep = [] then map (\<lambda>c. [c]) s
      else let n1 = (case n of None \<Rightarrow> Count s sep + 1 | Some m \<Rightarrow> m);
               n2 = (if n1 > length s + 1 then length s + 1 else n1)
           in splitLoop s sep sepSave (n2 - 1))"

definition Split :: "string \<Rightarrow> string \<Rightarrow> string list" where
  "Split s sep = genSplit s sep 0 None"

definition SplitAfterN :: "string \<Rightarrow> string \<Rightarrow> nat \<Rightarrow> string list" where
  "SplitAfterN s sep n = genSplit s sep (length sep) (Some n)"

fun Join :: "string list \<Rightarrow> string \<Rightarrow> string" where
  "Join [] sep = []"
| "Join [a] sep = a"
| "Join (a # b # elems) sep = a @ sep @ Join (b # elems) sep"

text \<open>
  \<^verbatim>\<open>strings.TrimSpace\<close> removes leading and trailing white space as Unicode defines
  it.  A rune is decoded as white space exactly when the bytes are one of the following
  UTF-8 encodings: the six ASCII characters, U+0085, U+00A0, U+1680, U+2000 to U+200A,
  U+2028, U+2029, U+202F, U+205F and U+3000.
\<close>

definition spaceRunes :: "string list" where
  "spaceRunes =
     [[CHR 0x09], [CHR 0x0A], [CHR 0x0B], [CHR 0x0C], [CHR 0x0D], [CHR 0x20],
      [CHR 0xC2, CHR 0x85], [CHR 0xC2, CHR 0xA0], [CHR 0xE1, CHR 0x9A, CHR 0x80],
      [CHR 0xE2, CHR 0x80, CHR 0x80], [CHR 0xE2, CHR 0x80, CHR 0x81],
      [CHR 0xE2, CHR 0x80, CHR 0x82], [CHR 0xE2, CHR 0x80, CHR 0x83],
      [CHR 0xE2, CHR 0x80, CHR 0x84], [CHR 0xE2, CHR 0x80, CHR 0x85],
      [CHR 0xE2, CHR 0x80, CHR 0x86], [CHR 0xE2, CHR 0x80, CHR 0x87],
      [CHR 0xE2, CHR 0x80, CHR 0x88], [CHR 0xE2, CHR 0x80, CHR 0x89],
      [CHR 0xE2, CHR 0x80, CHR 0x8A], [CHR 0xE2, CHR 0x80, CHR 0xA8],
      [CHR 0xE2, CHR 0x80, CHR 0xA9], [CHR 0xE2, CHR 0x80, CHR 0xAF],
      [CHR 0xE2, CHR 0x81, CHR 0x9F], [CHR 0xE3, CHR 0x80, CHR 0x80]]"

text \<open>The width in bytes of the white-space rune \<open>s\<close> starts (ends) with; 0 when there is none.\<close>

definition leadingSpace :: "string \<Rightarrow> nat" where
  "leadingSpace s = (case find (HasPrefix s) spaceRunes of None \<Rightarrow> 0 | Some w \<Rightarrow> length w)"

definition trailingSpace :: "string \<Rightarrow> nat" where
  "trailingSpace s = (case find (HasSuffix s) spaceRunes of None \<Rightarrow> 0 | Some w \<Rightarrow> length w)"

function TrimLeftSpace :: "string \<Rightarrow> string" where
  "TrimLeftSpace s = (if leadingSpace s = 0 \<or> s = [] then s else TrimLeftSpace (drop (leadingSpace s) s))"
  by pat_completeness auto
termination
  by (relation "measure length") auto

function TrimRightSpace :: "string \<Rightarrow> string" where
  "TrimRightSpace s =
     (if trailingSpace s = 0 \<or> s = [] then s else TrimRightSpace (take (length s - trailingSpace s) s))"
  by pat_completeness auto
termination
  by (relation "measure length") auto

declare TrimLeftSpace.simps [simp del] TrimRightSpace.simps [simp del]

definition TrimSpace :: "string \<Rightarrow> string" where
  "TrimSpace s = TrimRightSpace (TrimLeftSpace s)"

section \<open>The functions of package \<^verbatim>\<open>path/filepath\<close> the program calls (Unix)\<close>

text \<open>
  \<^verbatim>\<open>filepath.Clean\<close>, element by element: empty elements and \<open>.\<close> are dropped, \<open>..\<close>
  removes the element before it (the root keeps none, a relative path keeps leading
  \<open>..\<close> elements).  \<open>out\<close> is the cleaned path so far, last element first.
\<close>

fun cleanElems :: "bool \<Rightarrow> string list \<Rightarrow> string list \<Rightarrow> string list" where
  "cleanElems rooted [] out = rev out"
| "cleanElems rooted (e # es) out =
     (if e = [] \<or> e = ''.'' then cleanElems rooted es out
      else if e = ''..'' then
        (case out of
           t # ts \<Rightarrow> if t \<noteq> ''..'' then cleanElems rooted es ts else cleanElems rooted es (e # out)
         | [] \<Rightarrow> if rooted then cleanElems rooted es [] else cleanElems rooted es [e])
      else cleanElems rooted es (e # out))"

definition Clean :: "string \<Rightarrow> string" where
  "Clean path =
     (if path = [] then ''.''
      else let rooted = HasPrefix path ''/'';
               out = (if rooted then ''/'' else []) @ Join (cleanElems rooted (Split path ''/'') []) ''/''
           in if out = [] then ''.'' else out)"

text \<open>\<^verbatim>\<open>filepath.Join\<close> of two elements: empty elements are ignored, the result is cleaned.\<close>

definition filepath_Join :: "string \<Rightarrow> string \<Rightarrow> string" where
  "filepath_Join a b =
     (if a \<noteq> [] then Clean (Join [a, b] ''/'')
      else if b \<noteq> [] then Clean b
      else [])"

definition Base :: "string \<Rightarrow> string" where
  "Base path =
     (if path = [] then ''.''
      else let stripped = rev (dropWhile (\<lambda>c. c = CHR ''/'') (rev path));
               lastElem = rev (takeWhile (\<lambda>c. c \<noteq> CHR ''/'') (rev stripped))
           in if lastElem = [] then ''/'' else lastElem)"

definition Ext :: "string \<Rightarrow> string" where
  "Ext path =
     (let lastElem = rev (takeWhile (\<lambda>c. c \<noteq> CHR ''/'') (rev path))
      in if CHR ''.'' \<in> set lastElem
         then CHR ''.'' # rev (takeWhile (\<lambda>c. c \<noteq> CHR ''.'') (rev lastElem))
         else [])"

section \<open>Content-type classification (assert\_http.go)\<close>

definition contentTypeIsJSON :: "string \<Rightarrow> failure + bool" where
  "contentTypeIsJSON contentType =
     (let contentTypeParts = Split contentType '';'' in
      case index contentTypeParts 0 of
        Inl e \<Rightarrow> Inl e
      | Inr firstPart \<Rightarrow>
          (let isPlainJSON = (firstPart = ''application/json'') in
           if isPlainJSON then Inr isPlainJSON
           else let isVendor = HasPrefix firstPart ''application/vnd.'';
                    isJSON = HasSuffix firstPart ''+json''
                in Inr (isVendor \<and> isJSON)))"

section \<open>Key substitution in a JSON document (json.go)\<close>

text \<open>
  The values \<^verbatim>\<open>encoding/json\<close> stores in an \<^verbatim>\<open>interface{}\<close>: nil, bool, float64, string,
  \<^verbatim>\<open>[]interface{}\<close> and \<^verbatim>\<open>map[string]interface{}\<close>.  A float64 is its 64 bits (the program
  never computes with one); a map is the list of its entries.
\<close>

datatype iface =
    JNil
  | JBool bool
  | JFloat64 "64 word"
  | JString string
  | JSlice "iface list"
  | JMap "(string \<times> iface) list"

text \<open>The values that are neither a slice nor a map.\<close>

fun isScalar :: "iface \<Rightarrow> bool" where
  "isScalar (JSlice s) = False"
| "isScalar (JMap m) = False"
| "isScalar v = True"

text \<open>
  \<^verbatim>\<open>updateMap\<close> visits every entry \<open>(k, v)\<close> of the map once: \<open>updateEntry\<close> is the
  type switch on \<open>v\<close>, \<open>updateSlice\<close> the loop over the elements of a slice.  The source
  writes the results into the map and the slice it was given; the model returns them.
  Both agree on a document in which no map or slice is reachable twice, as every
  unmarshalled document is.
\<close>

fun updateMap :: "string \<Rightarrow> iface \<Rightarrow> (string \<times> iface) list \<Rightarrow> (string \<times> iface) list"
  and updateEntry :: "string \<Rightarrow> iface \<Rightarrow> string \<Rightarrow> iface \<Rightarrow> iface"
  and updateSlice :: "string \<Rightarrow> iface \<Rightarrow> iface list \<Rightarrow> iface list"
where
  "updateMap key value [] = []"
| "updateMap key value ((k, v) # m) = (k, updateEntry key value k v) # updateMap key value m"
| "updateEntry key value k v =
     (case v of
        JSlice s \<Rightarrow> JSlice (updateSlice key value s)
      | JMap s \<Rightarrow> JMap (updateMap key value s)
      | _ \<Rightarrow> (if k = key then value else v))"
| "updateSlice key value [] = []"
| "updateSlice key value (e # s) =
     (case e of JMap m \<Rightarrow> JMap (updateMap key value m) | _ \<Rightarrow> e) # updateSlice key value s"

definition updateKeyValuesInMap ::
    "string \<Rightarrow> iface \<Rightarrow> (string \<times> iface) list \<Rightarrow> (string \<times> iface) list" where
  "updateKeyValuesInMap key value m = updateMap key value m"

section \<open>Snapshot records and the snapshot file format\<close>

definition snapshotExt :: string where
  "snapshotExt = ''.snapshot''"

definition snapshotSeparator :: string where
  "snapshotSeparator = ''/* snapshot: ''"

text \<open>abide\_nix.go; the Windows build compares the extension without regard to case.\<close>

definition isSnapshot :: "string \<Rightarrow> bool" where
  "isSnapshot path = (Ext path = snapshotExt)"

type_synonym snapshotID = string

record snapshot =
  id' :: snapshotID
  value' :: string
  path :: string
  evaluated :: bool
  shouldRemove :: bool

text \<open>
  \<^verbatim>\<open>map[snapshotID]*snapshot\<close>: the list of the map's entries, one per key.  An
  assignment \<^verbatim>\<open>m[k] = v\<close> is \<^const>\<open>AList.update\<close>, a lookup is \<^const>\<open>map_of\<close>, and a
  \<^verbatim>\<open>range\<close> loop runs through the list (Go leaves the order open).
\<close>

type_synonym snapshots = "(snapshotID \<times> snapshot) list"

text \<open>
  The loop of \<^verbatim>\<open>decode\<close> over the pieces of the file.  \<^verbatim>\<open>components[1]\<close> panics when
  the piece holds no newline: \<^verbatim>\<open>SplitAfterN\<close> then returns one component.
\<close>

fun decodeLoop :: "string list \<Rightarrow> snapshots \<Rightarrow> failure + snapshots" where
  "decodeLoop [] snaps = Inr snaps"
| "decodeLoop (s # snapshotsStr) snaps =
     (if s = [] then decodeLoop snapshotsStr snaps
      else let components = SplitAfterN s [NL] 2 in
        case index components 0 of
          Inl e \<Rightarrow> Inl e
        | Inr c0 \<Rightarrow>
            (let i = TrimSuffix c0 ('' */'' @ [NL]) in
             case index components 1 of
               Inl e \<Rightarrow> Inl e
             | Inr c1 \<Rightarrow>
                 (let val = TrimSpace c1 in
                  decodeLoop snapshotsStr
                    (AList.update i
                       \<lparr>id' = i, value' = val, path = [], evaluated = False, shouldRemove = False\<rparr>
                       snaps))))"

text \<open>
  \<^verbatim>\<open>decode\<close> returns the pair \<^verbatim>\<open>(snapshots, error)\<close>; \<open>Inl\<close> is a panic.
\<close>

definition decode :: "string \<Rightarrow> failure + snapshots \<times> failure option" where
  "decode data =
     (case decodeLoop (Split data snapshotSeparator) [] of
        Inl e \<Rightarrow> Inl e
      | Inr snaps \<Rightarrow> Inr (snaps, None))"

text \<open>
  The loop of \<^verbatim>\<open>encode\<close> over the sorted identifiers.  \<^verbatim>\<open>bytes.Buffer.WriteString\<close>
  always returns a nil error, so the two error returns of the source are never taken.
\<close>

fun encodeLoop :: "string list \<Rightarrow> snapshots \<Rightarrow> string \<Rightarrow> failure + string" where
  "encodeLoop [] snaps buf = Inr buf"
| "encodeLoop (i # ids) snaps buf =
     (case map_of snaps i of
        None \<Rightarrow> Inl PanicNilDereference
      | Some s \<Rightarrow>
          encodeLoop ids snaps
            (buf @ (snapshotSeparator @ id' s @ '' */'' @ [NL]) @ (value' s @ [NL, NL])))"

definition encode :: "snapshots \<Rightarrow> failure + string \<times> failure option" where
  "encode snaps =
     (let ids = sort (map fst snaps) in
      case encodeLoop ids snaps [] of
        Inl e \<Rightarrow> Inl e
      | Inr buf \<Rightarrow> Inr (TrimSpace buf, None))"

section \<open>The environment: file system, run mode, configuration, test handle\<close>

text \<open>
  The file system as the program sees it: the working directory (\<open>None\<close> when
  \<^verbatim>\<open>os.Getwd\<close> fails), the directories, the regular files with their contents, and the
  paths on which the operating system refuses to create, open or write.
\<close>

record filesystem =
  getwd :: "string option"
  dirs :: "string list"
  files :: "(string \<times> string) list"
  denied :: "string list"

definition os_Getwd :: "filesystem \<Rightarrow> string \<times> failure option" where
  "os_Getwd f = (case getwd f of None \<Rightarrow> ([], Some (ErrOS ''getwd'' [])) | Some d \<Rightarrow> (d, None))"

text \<open>\<^verbatim>\<open>os.IsNotExist\<close> of the error of \<^verbatim>\<open>os.Stat\<close>.\<close>

definition statIsNotExist :: "filesystem \<Rightarrow> string \<Rightarrow> bool" where
  "statIsNotExist f p = (p \<notin> set (dirs f) \<and> map_of (files f) p = None)"

definition os_Mkdir :: "filesystem \<Rightarrow> string \<Rightarrow> failure option \<times> filesystem" where
  "os_Mkdir f p =
     (if p \<in> set (denied f) \<or> \<not> statIsNotExist f p then (Some (ErrOS ''mkdir'' p), f)
      else (None, f\<lparr>dirs := dirs f @ [p]\<rparr>))"

text \<open>The name of \<open>p\<close> as an entry of the directory \<open>dir\<close>, when \<open>p\<close> lies directly in it.\<close>

definition entryName :: "string \<Rightarrow> string \<Rightarrow> string option" where
  "entryName dir p =
     (if HasPrefix p (dir @ ''/'')
      then (let n = drop (length dir + 1) p
            in if n \<noteq> [] \<and> CHR ''/'' \<notin> set n then Some n else None)
      else None)"

text \<open>\<^verbatim>\<open>ioutil.ReadDir\<close>: the names of the entries of a directory, sorted.\<close>

definition ReadDir :: "filesystem \<Rightarrow> string \<Rightarrow> string list \<times> failure option" where
  "ReadDir f dir =
     (if dir \<notin> set (dirs f) \<or> dir \<in> set (denied f) then ([], Some (ErrOS ''readdir'' dir))
      else (sort (remdups (List.map_filter (entryName dir) (dirs f @ map fst (files f)))), None))"

text \<open>\<^verbatim>\<open>os.Open\<close> gives a handle (the path) on a file or a directory.\<close>

definition os_Open :: "filesystem \<Rightarrow> string \<Rightarrow> string \<times> failure option" where
  "os_Open f p =
     (if statIsNotExist f p \<or> p \<in> set (denied f) then ([], Some (ErrOS ''open'' p)) else (p, None))"

definition ReadAll :: "filesystem \<Rightarrow> string \<Rightarrow> string \<times> failure option" where
  "ReadAll f file =
     (case map_of (files f) file of None \<Rightarrow> ([], Some (ErrOS ''read'' file)) | Some data \<Rightarrow> (data, None))"

definition WriteFile :: "filesystem \<Rightarrow> string \<Rightarrow> string \<Rightarrow> failure option \<times> filesystem" where
  "WriteFile f p data =
     (if p \<in> set (denied f) \<or> p \<in> set (dirs f) then (Some (ErrOS ''write'' p), f)
      else (None, f\<lparr>files := AList.update p data (files f)\<rparr>))"

text \<open>
  The configuration (its declaration and \<^verbatim>\<open>getConfig\<close> are not among the sources): the
  fields the sources read.
\<close>

record config =
  Defaults :: "(string \<times> iface) list"
  UnifiedDiff :: bool

text \<open>
  The state of the process: the flags of \<^verbatim>\<open>args\<close>, the package variables
  \<^verbatim>\<open>SnapshotsDir\<close>, \<^verbatim>\<open>allSnapshots\<close> (\<open>None\<close> is the nil map) and \<^verbatim>\<open>snapshotsLoaded\<close>
  (whether the \<^verbatim>\<open>sync.Once\<close> has run), what \<^verbatim>\<open>getConfig\<close> returns, the file system,
  the two output streams, and the test handle \<^verbatim>\<open>t\<close> (whether the test has failed, and
  the messages given to \<^verbatim>\<open>t.Error\<close>).
\<close>

record state =
  shouldUpdate :: bool
  singleRun :: bool
  SnapshotsDir :: string
  allSnapshots :: "snapshots option"
  snapshotsLoaded :: bool
  getConfig :: "config option \<times> failure option"
  fs :: filesystem
  stdout :: "string list"
  stderr :: "string list"
  t_failed :: bool
  t_errors :: "string list"

definition t_Error :: "string \<Rightarrow> state \<Rightarrow> state" where
  "t_Error msg st = st\<lparr>t_failed := True, t_errors := t_errors st @ [msg]\<rparr>"

definition t_Fatal :: "failure \<Rightarrow> state \<Rightarrow> (failure + 'a) \<times> state" where
  "t_Fatal err st = (Inl (TestFatal err), st\<lparr>t_failed := True\<rparr>)"

definition Printf :: "string \<Rightarrow> state \<Rightarrow> state" where
  "Printf line st = st\<lparr>stdout := stdout st @ [line]\<rparr>"

text \<open>The snapshots of the registry; a \<^verbatim>\<open>range\<close> over the nil map runs through nothing.\<close>

definition entries :: "state \<Rightarrow> snapshots" where
  "entries st = (case allSnapshots st of None \<Rightarrow> [] | Some m \<Rightarrow> m)"

section \<open>Persisting the registry\<close>

definition getTestingPath :: "filesystem \<Rightarrow> string \<times> failure option" where
  "getTestingPath f = os_Getwd f"

definition getTestingPackage :: "filesystem \<Rightarrow> string \<times> failure option" where
  "getTestingPackage f =
     (case getTestingPath f of
        (_, Some err) \<Rightarrow> ([], Some err)
      | (dir, None) \<Rightarrow> (Base dir, None))"

definition findOrCreateSnapshotDirectory ::
    "string \<Rightarrow> filesystem \<Rightarrow> (string \<times> failure option) \<times> filesystem" where
  "findOrCreateSnapshotDirectory snapshotsDir f =
     (case getTestingPath f of
        (_, Some err) \<Rightarrow> (([], Some ErrUnableToLocateTestPath), f)
      | (testingPath, None) \<Rightarrow>
          (let dir = filepath_Join testingPath snapshotsDir in
           if statIsNotExist f dir then
             (case os_Mkdir f dir of
                (Some err, f') \<Rightarrow> (([], Some ErrUnableToCreateSnapshotDirectory), f')
              | (None, f') \<Rightarrow> ((dir, None), f'))
           else ((dir, None), f)))"

text \<open>The first loop of \<^verbatim>\<open>save\<close>: the snapshots of the registry, grouped by their path.\<close>

fun groupLoop :: "snapshots \<Rightarrow> (string \<times> snapshot list) list \<Rightarrow> (string \<times> snapshot list) list" where
  "groupLoop [] snapshotsByPath = snapshotsByPath"
| "groupLoop ((k, snap) # s) snapshotsByPath =
     (let byPath1 = (case map_of snapshotsByPath (path snap) of
                       None \<Rightarrow> AList.update (path snap) [] snapshotsByPath
                     | Some _ \<Rightarrow> snapshotsByPath);
          old = (case map_of byPath1 (path snap) of None \<Rightarrow> [] | Some snaps \<Rightarrow> snaps)
      in groupLoop s (AList.update (path snap) (old @ [snap]) byPath1))"

text \<open>The inner loop: the snapshots of one file that are not marked for removal.\<close>

fun keepLoop :: "snapshot list \<Rightarrow> snapshots \<Rightarrow> snapshots" where
  "keepLoop [] snapshotMap = snapshotMap"
| "keepLoop (snap # snaps) snapshotMap =
     (if shouldRemove snap then keepLoop snaps snapshotMap
      else keepLoop snaps (AList.update (id' snap) snap snapshotMap))"

text \<open>The second loop: one file written per path, the empty path skipped.\<close>

fun saveLoop ::
    "(string \<times> snapshot list) list \<Rightarrow> filesystem \<Rightarrow> (failure + failure option) \<times> filesystem" where
  "saveLoop [] f = (Inr None, f)"
| "saveLoop ((p, snaps) # rest) f =
     (if p = [] then saveLoop rest f
      else case encode (keepLoop snaps []) of
             Inl e \<Rightarrow> (Inl e, f)
           | Inr (data, Some err) \<Rightarrow> (Inr (Some err), f)
           | Inr (data, None) \<Rightarrow>
               (case WriteFile f p data of
                  (Some err, f') \<Rightarrow> (Inr (Some err), f')
                | (None, f') \<Rightarrow> saveLoop rest f'))"

definition save :: "snapshots \<Rightarrow> filesystem \<Rightarrow> (failure + failure option) \<times> filesystem" where
  "save s f = saveLoop (groupLoop s []) f"

section \<open>Cleanup at the end of a run\<close>

text \<open>
  The loop of \<^verbatim>\<open>Cleanup\<close>: \<open>prune\<close> is \<^verbatim>\<open>args.shouldUpdate && !args.singleRun\<close>.  It
  returns the registry with the unused snapshots marked, and the lines printed.
\<close>

fun cleanupLoop :: "bool \<Rightarrow> snapshots \<Rightarrow> snapshots \<times> string list" where
  "cleanupLoop prune [] = ([], [])"
| "cleanupLoop prune ((k, s) # rest) =
     (let (rest', out) = cleanupLoop prune rest in
      if \<not> evaluated s \<and> prune
      then ((k, s\<lparr>shouldRemove := True\<rparr>) # rest',
            (''Removing unused snapshot '' @ [CHR 0x60] @ id' s @ [CHR 0x60, NL]) # out)
      else ((k, s) # rest', out))"

definition Cleanup :: "state \<Rightarrow> (failure + failure option) \<times> state" where
  "Cleanup st =
     (let (m, out) = cleanupLoop (shouldUpdate st \<and> \<not> singleRun st) (entries st);
          st1 = st\<lparr>allSnapshots := map_option (\<lambda>_. m) (allSnapshots st), stdout := stdout st @ out\<rparr>;
          (r, f) = save (entries st1) (fs st1)
      in (r, st1\<lparr>fs := f\<rparr>))"

text \<open>
  The loop of \<^verbatim>\<open>CleanupOrFail\<close>: the counter \<^verbatim>\<open>failed\<close> and the lines written to the
  standard error stream.
\<close>

fun unusedLoop :: "snapshots \<Rightarrow> nat \<Rightarrow> string list \<Rightarrow> nat \<times> string list" where
  "unusedLoop [] failed err = (failed, err)"
| "unusedLoop ((k, s) # rest) failed err =
     (if \<not> evaluated s
      then unusedLoop rest (failed + 1)
             (err @ [''Unused snapshot '' @ [CHR 0x60] @ id' s @ [CHR 0x60, NL]])
      else unusedLoop rest failed err)"

definition CleanupOrFail :: "state \<Rightarrow> (failure + failure option) \<times> state" where
  "CleanupOrFail st =
     (if singleRun st then (Inr None, st)
      else if shouldUpdate st then Cleanup st
      else let (failed, err) = unusedLoop (entries st) 0 (stderr st);
               st1 = st\<lparr>stderr := err\<rparr>
           in if failed > 0 then (Inr (Some (ErrUnusedSnapshots failed)), st1)
              else (Inr None, st1))"

section \<open>Loading the registry\<close>

text \<open>The loop that merges the snapshots of one file into the registry being built.\<close>

fun mergeLoop :: "snapshots \<Rightarrow> string \<Rightarrow> snapshots \<Rightarrow> snapshots" where
  "mergeLoop [] p snaps = snaps"
| "mergeLoop ((i, snap) # s) p snaps = mergeLoop s p (AList.update i (snap\<lparr>path := p\<rparr>) snaps)"

text \<open>
  \<^verbatim>\<open>parseSnapshotsFromPaths\<close> starts one goroutine per path; each merges its snapshots
  under the mutex, so the result is that of the files merged one after the other in
  some order.  The model takes the order of the list.  A file that cannot be opened or
  read is skipped; a panic in a goroutine ends the process.
\<close>

fun parseLoop :: "filesystem \<Rightarrow> string list \<Rightarrow> snapshots \<Rightarrow> failure + snapshots" where
  "parseLoop f [] snaps = Inr snaps"
| "parseLoop f (p # paths) snaps =
     (case os_Open f p of
        (_, Some err) \<Rightarrow> parseLoop f paths snaps
      | (file, None) \<Rightarrow>
          (case ReadAll f file of
             (_, Some err) \<Rightarrow> parseLoop f paths snaps
           | (data, None) \<Rightarrow>
               (case decode data of
                  Inl e \<Rightarrow> Inl e
                | Inr (s, Some err) \<Rightarrow> parseLoop f paths snaps
                | Inr (s, None) \<Rightarrow> parseLoop f paths (mergeLoop s p snaps))))"

definition parseSnapshotsFromPaths ::
    "filesystem \<Rightarrow> string list \<Rightarrow> failure + snapshots \<times> failure option" where
  "parseSnapshotsFromPaths f paths =
     (case parseLoop f paths [] of Inl e \<Rightarrow> Inl e | Inr snaps \<Rightarrow> Inr (snaps, None))"

definition reloadSnapshots :: "state \<Rightarrow> (failure + failure option) \<times> state" where
  "reloadSnapshots st =
     (case findOrCreateSnapshotDirectory (SnapshotsDir st) (fs st) of
        ((_, Some err), f) \<Rightarrow> (Inr (Some err), st\<lparr>fs := f\<rparr>)
      | ((dir, None), f) \<Rightarrow>
          (case ReadDir f dir of
             (_, Some err) \<Rightarrow> (Inr (Some err), st\<lparr>fs := f\<rparr>)
           | (names, None) \<Rightarrow>
               (let paths = filter isSnapshot (map (filepath_Join dir) names) in
                case parseSnapshotsFromPaths f paths of
                  Inl e \<Rightarrow> (Inl e, st\<lparr>fs := f\<rparr>)
                | Inr (snaps, err) \<Rightarrow> (Inr err, st\<lparr>fs := f, allSnapshots := Some snaps\<rparr>))))"

text \<open>
  \<^verbatim>\<open>snapshotsLoaded.Do\<close> runs its function on the first call only; the result \<^verbatim>\<open>err\<close>
  of \<^verbatim>\<open>loadSnapshots\<close> is assigned inside that function, and is nil when it does not run.
\<close>

definition loadSnapshots :: "state \<Rightarrow> (failure + failure option) \<times> state" where
  "loadSnapshots st =
     (if snapshotsLoaded st then (Inr None, st)
      else case reloadSnapshots st of (r, st1) \<Rightarrow> (r, st1\<lparr>snapshotsLoaded := True\<rparr>))"

definition getSnapshot :: "snapshotID \<Rightarrow> state \<Rightarrow> (failure + snapshot option) \<times> state" where
  "getSnapshot i st =
     (case loadSnapshots st of
        (Inl e, st1) \<Rightarrow> (Inl e, st1)
      | (Inr (Some err), st1) \<Rightarrow> (Inl (PanicError err), st1)
      | (Inr None, st1) \<Rightarrow> (Inr (map_of (entries st1) i), st1))"

definition isValid :: "snapshotID \<Rightarrow> bool" where
  "isValid i = True"

text \<open>
  \<^verbatim>\<open>writeSnapshot\<close> returns the new snapshot, which is the entry of the registry under
  \<open>i\<close>.  An assignment to an entry of the nil map is a panic.
\<close>

definition writeSnapshot ::
    "snapshotID \<Rightarrow> string \<Rightarrow> bool \<Rightarrow> state \<Rightarrow> (failure + snapshot option \<times> failure option) \<times> state" where
  "writeSnapshot i val isUpdate st =
     (if \<not> isValid i then (Inr (None, Some ErrInvalidSnapshotID), st)
      else case loadSnapshots st of
        (Inl e, st1) \<Rightarrow> (Inl e, st1)
      | (Inr (Some err), st1) \<Rightarrow> (Inr (None, Some err), st1)
      | (Inr None, st1) \<Rightarrow>
          (case findOrCreateSnapshotDirectory (SnapshotsDir st1) (fs st1) of
             ((_, Some err), f) \<Rightarrow> (Inr (None, Some err), st1\<lparr>fs := f\<rparr>)
           | ((dir, None), f) \<Rightarrow>
               (case getTestingPackage f of
                  (_, Some err) \<Rightarrow> (Inr (None, Some err), st1\<lparr>fs := f\<rparr>)
                | (pkg, None) \<Rightarrow>
                    (let p = filepath_Join dir (pkg @ snapshotExt);
                         s = \<lparr>id' = i, value' = val, path = p, evaluated = isUpdate,
                              shouldRemove = False\<rparr>
                     in case allSnapshots st1 of
                          None \<Rightarrow> (Inl PanicNilMap, st1\<lparr>fs := f\<rparr>)
                        | Some m \<Rightarrow>
                            (let m' = AList.update i s m in
                             case save m' f of
                               (Inl e, f') \<Rightarrow> (Inl e, st1\<lparr>fs := f', allSnapshots := Some m'\<rparr>)
                             | (Inr (Some err), f') \<Rightarrow>
                                 (Inr (None, Some err), st1\<lparr>fs := f', allSnapshots := Some m'\<rparr>)
                             | (Inr None, f') \<Rightarrow>
                                 (Inr (Some s, None), st1\<lparr>fs := f', allSnapshots := Some m'\<rparr>))))))"

definition createSnapshot ::
    "snapshotID \<Rightarrow> string \<Rightarrow> state \<Rightarrow> (failure + snapshot option \<times> failure option) \<times> state" where
  "createSnapshot i val st = writeSnapshot i val False st"

definition updateSnapshot ::
    "snapshotID \<Rightarrow> string \<Rightarrow> state \<Rightarrow> (failure + snapshot option \<times> failure option) \<times> state" where
  "updateSnapshot i val st = writeSnapshot i val True st"

section \<open>The libraries the comparison calls\<close>

text \<open>
  The diff algorithms (\<^verbatim>\<open>diffmatchpatch\<close>, \<^verbatim>\<open>gotextdiff\<close>, \<^verbatim>\<open>jsondiff\<close>), the JSON codec
  and the formatting of an \<^verbatim>\<open>interface{}\<close> value are not part of the program.  The model
  takes them as a parameter:
  \<^item> \<open>DiffMain a b\<close> is \<^verbatim>\<open>dmp.DiffMain(a, b, false)\<close>, \<open>DiffPrettyText\<close> its rendering;
  \<^item> \<open>ToUnified i a b\<close> is the printed unified diff of \<open>a\<close> and \<open>b\<close>;
  \<^item> \<open>Compare a b\<close> is \<^verbatim>\<open>jsondiff.Compare\<close> with the default console options;
  \<^item> \<open>Unmarshal\<close> decodes into a \<^verbatim>\<open>map[string]interface{}\<close> (\<open>None\<close>: the nil map), and
    \<open>MarshalIndent\<close> encodes one with two spaces of indentation;
  \<^item> \<open>Sprint v\<close> is what the verb \<^verbatim>\<open>%s\<close> prints for \<open>v\<close>.
\<close>

datatype Operation = DiffDelete | DiffInsert | DiffEqual

type_synonym Diff = "Operation \<times> string"

datatype Difference =
    FullMatch
  | SupersetMatch
  | NoMatch
  | FirstArgIsInvalidJson
  | SecondArgIsInvalidJson
  | BothArgsAreInvalidJson

record libs =
  DiffMain :: "string \<Rightarrow> string \<Rightarrow> Diff list"
  DiffPrettyText :: "Diff list \<Rightarrow> string"
  ToUnified :: "string \<Rightarrow> string \<Rightarrow> string \<Rightarrow> string"
  Compare :: "string \<Rightarrow> string \<Rightarrow> Difference \<times> string"
  Unmarshal :: "string \<Rightarrow> (string \<times> iface) list option \<times> failure option"
  MarshalIndent :: "(string \<times> iface) list option \<Rightarrow> string \<times> failure option"
  Sprint :: "iface \<Rightarrow> string"

section \<open>Comparing and recording a snapshot\<close>

type_synonym SnapshotType = string

definition SnapshotGeneric :: SnapshotType where
  "SnapshotGeneric = []"

definition SnapshotHTTPRespJSON :: SnapshotType where
  "SnapshotHTTPRespJSON = ''HTTPContentTypeJSON''"

definition compareResults ::
    "libs \<Rightarrow> string \<Rightarrow> string \<Rightarrow> string \<Rightarrow> state \<Rightarrow> (failure + string) \<times> state" where
  "compareResults L i existing new st =
     (case getConfig st of
        (_, Some err) \<Rightarrow> t_Fatal err st
      | (c, None) \<Rightarrow>
          (if (case c of None \<Rightarrow> False | Some cfg \<Rightarrow> UnifiedDiff cfg)
           then (Inr (ToUnified L i existing new), st)
           else let allDiffs = DiffMain L existing new;
                    nonEqualDiffs = filter (\<lambda>d. fst d \<noteq> DiffEqual) allDiffs
                in if length nonEqualDiffs = 0 then (Inr [], st)
                   else (Inr (DiffPrettyText L allDiffs), st)))"

definition didNotMatchMessage :: "string \<Rightarrow> string \<Rightarrow> string" where
  "didNotMatchMessage i d =
     [NL, NL] @ ''## Existing snapshot does not match results...'' @ [NL]
     @ ''## '' @ [CHR 0x22] @ i @ [CHR 0x22] @ [NL, NL]
     @ d
     @ [NL, NL]
     @ ''If this change was intentional, run tests again, $ go test -v -- -u'' @ [NL]"

definition newSnapshotMessage :: "string \<Rightarrow> string \<Rightarrow> string" where
  "newSnapshotMessage i body =
     [NL, NL] @ ''## New snapshot found...'' @ [NL]
     @ ''## '' @ [CHR 0x22] @ i @ [CHR 0x22] @ [NL, NL]
     @ body
     @ [NL, NL]
     @ ''To save, run tests again, $ go test -v -- -u'' @ [NL]"

section \<open>HTTP requests and responses (assert\_http.go)\<close>

record httpRequest =
  header :: "string list"
  body :: string

definition headerDump :: "httpRequest \<Rightarrow> string" where
  "headerDump h = Join (header h) [NL]"

definition dump :: "httpRequest \<Rightarrow> string" where
  "dump h = headerDump h @ [NL, NL] @ body h"

text \<open>
  \<^verbatim>\<open>jsonBodyCleanup\<close> returns its error and leaves the cleaned body in the request.

  The loop over the defaults stores each replacement value in the document.  A scalar
  is copied.  A map or a slice is stored as the one object the configuration holds: it
  is then shared between all its occurrences and the configuration, later substitutions
  walk into it and update it in place, and a map can come to contain itself.  The tree
  model of \<^typ>\<open>iface\<close> follows the source only where nothing is shared, that is while
  every replacement value is a scalar; for a configuration with a map or a slice among
  its replacement values the model stops with \<open>SharingNotModelled\<close> when it reaches the
  loop.  The model takes the defaults in the order of the list; Go leaves the order
  open, and for scalar values it makes no difference (\<open>substitution_commutes\<close> below).
\<close>

definition jsonBodyCleanup ::
    "libs \<Rightarrow> config option \<Rightarrow> httpRequest \<Rightarrow> failure + failure option \<times> httpRequest" where
  "jsonBodyCleanup L c h =
     (let jsonStr = body h in
      if TrimSpace jsonStr = [] then Inr (None, h)
      else case Unmarshal L jsonStr of
        (_, Some err) \<Rightarrow> Inr (Some err, h)
      | (jsonIface, None) \<Rightarrow>
          (if (case c of None \<Rightarrow> False
               | Some cfg \<Rightarrow> \<not> list_all (\<lambda>(k, v). isScalar v) (Defaults cfg))
           then Inl SharingNotModelled
           else let cleaned =
                 (case c of
                    None \<Rightarrow> jsonIface
                  | Some cfg \<Rightarrow>
                      foldl (\<lambda>j (k, v). map_option (updateKeyValuesInMap k v) j) jsonIface (Defaults cfg))
           in case MarshalIndent L cleaned of
                (_, Some err) \<Rightarrow> Inr (Some err, h)
              | (out, None) \<Rightarrow> Inr (None, h\<lparr>body := out\<rparr>)))"

fun configCleanupLoop :: "libs \<Rightarrow> (string \<times> iface) list \<Rightarrow> string list \<Rightarrow> failure + string list" where
  "configCleanupLoop L defaults [] = Inr []"
| "configCleanupLoop L defaults (line # rest) =
     (let headerItem = Split line '':'' in
      case index headerItem 0 of
        Inl e \<Rightarrow> Inl e
      | Inr item0 \<Rightarrow>
          (let key = TrimSpace item0;
               line' = (case map_of defaults key of
                          Some def \<Rightarrow> item0 @ '': '' @ Sprint L def
                        | None \<Rightarrow> line)
           in case configCleanupLoop L defaults rest of
                Inl e \<Rightarrow> Inl e
              | Inr rest' \<Rightarrow> Inr (line' # rest')))"

definition configCleanup :: "libs \<Rightarrow> config option \<Rightarrow> httpRequest \<Rightarrow> failure + httpRequest" where
  "configCleanup L c h =
     (case c of
        None \<Rightarrow> Inr h
      | Some cfg \<Rightarrow>
          (case configCleanupLoop L (Defaults cfg) (header h) of
             Inl e \<Rightarrow> Inl e
           | Inr hs \<Rightarrow> Inr (h\<lparr>header := hs\<rparr>)))"

definition plainToInternalRequest :: "string \<Rightarrow> httpRequest" where
  "plainToInternalRequest requestDump =
     (let data = requestDump;
          lines = Split (TrimSpace data) [NL];
          hd_lines = takeWhile (\<lambda>l. TrimSpace l \<noteq> []) lines;
          headerEnd = length hd_lines
      in \<lparr>header = hd_lines, body = TrimSpace (Join (drop headerEnd lines) [NL])\<rparr>)"

text \<open>
  \<^verbatim>\<open>compareResultsHTTPRequestJSON\<close>.  The errors \<^verbatim>\<open>jsonBodyCleanup\<close> returns are dropped
  by the source; a \<^verbatim>\<open>switch\<close> without a matching case does nothing.
\<close>

definition compareResultsHTTPRequestJSON ::
    "libs \<Rightarrow> string \<Rightarrow> string \<Rightarrow> state \<Rightarrow> (failure + string) \<times> state" where
  "compareResultsHTTPRequestJSON L existing new st =
     (let existingR0 = plainToInternalRequest existing;
          newR0 = plainToInternalRequest new
      in case getConfig st of
        (_, Some err) \<Rightarrow> t_Fatal err st
      | (c, None) \<Rightarrow>
          (case configCleanup L c existingR0 of
             Inl e \<Rightarrow> (Inl e, st)
           | Inr existingR1 \<Rightarrow>
               (case configCleanup L c newR0 of
                  Inl e \<Rightarrow> (Inl e, st)
                | Inr newR1 \<Rightarrow>
                  (case jsonBodyCleanup L c existingR1 of
                     Inl e \<Rightarrow> (Inl e, st)
                   | Inr (_, existingR) \<Rightarrow>
                  (case jsonBodyCleanup L c newR1 of
                     Inl e \<Rightarrow> (Inl e, st)
                   | Inr (_, newR) \<Rightarrow>
                    (let allDiffs = DiffMain L (headerDump existingR) (headerDump newR);
                         nonEqualDiffs = filter (\<lambda>d. fst d \<noteq> DiffEqual) allDiffs;
                         diffSoFar = (if length nonEqualDiffs \<noteq> 0 then DiffPrettyText L allDiffs else []);
                         (jsonDifference, explanation) = Compare L (body existingR) (body newR)
                     in if jsonDifference = FullMatch then (Inr diffSoFar, st)
                        else let diffSoFar = diffSoFar @ [NL] in
                          (case jsonDifference of
                             SupersetMatch \<Rightarrow> (Inr (diffSoFar @ explanation), st)
                           | NoMatch \<Rightarrow> (Inr (diffSoFar @ explanation), st)
                           | FirstArgIsInvalidJson \<Rightarrow>
                               (Inr (diffSoFar @ ''ERROR: Existing body is not valid JSON''), st)
                           | SecondArgIsInvalidJson \<Rightarrow>
                               (Inr (diffSoFar @ ''ERROR: New body is not valid JSON''), st)
                           | BothArgsAreInvalidJson \<Rightarrow>
                               (if length (body existingR) = length (body newR) \<and> length (body newR) = 0
                                then (Inr diffSoFar, st)
                                else (Inr (diffSoFar
                                        @ ''ERROR: Neither Existing nor New bodies are valid JSON'' @ [NL]
                                        @ dump existingR @ [NL] @ dump newR), st))
                           | FullMatch \<Rightarrow> (Inr diffSoFar, st))))))))"

text \<open>
  \<^verbatim>\<open>snapshot.evaluated = true\<close>: the pointer \<^verbatim>\<open>snapshot\<close> is the entry of the registry
  under the identifier, so the assignment changes that entry.
\<close>

definition setEvaluated :: "snapshotID \<Rightarrow> state \<Rightarrow> state" where
  "setEvaluated i st =
     st\<lparr>allSnapshots :=
          map_option (map (\<lambda>(k, s). if k = i then (k, s\<lparr>evaluated := True\<rparr>) else (k, s)))
            (allSnapshots st)\<rparr>"

definition createOrUpdateSnapshot ::
    "libs \<Rightarrow> string \<Rightarrow> string \<Rightarrow> SnapshotType \<Rightarrow> state \<Rightarrow> (failure + unit) \<times> state" where
  "createOrUpdateSnapshot L i data format st =
     (case getSnapshot i st of
        (Inl e, st1) \<Rightarrow> (Inl e, st1)
      | (Inr None, st1) \<Rightarrow>
          (if \<not> shouldUpdate st1 then (Inr (), t_Error (newSnapshotMessage i data) st1)
           else let st2 = Printf (''Creating snapshot '' @ [CHR 0x60] @ i @ [CHR 0x60, NL]) st1 in
             case createSnapshot i data st2 of
               (Inl e, st3) \<Rightarrow> (Inl e, st3)
             | (Inr (_, Some err), st3) \<Rightarrow> t_Fatal err st3
             | (Inr (None, None), st3) \<Rightarrow> (Inl PanicNilDereference, st3)
             | (Inr (Some snap, None), st3) \<Rightarrow> (Inr (), setEvaluated i st3))
      | (Inr (Some snap), st1) \<Rightarrow>
          (let st2 = setEvaluated i st1 in
           case (if format = SnapshotHTTPRespJSON
                 then compareResultsHTTPRequestJSON L (value' snap) (TrimSpace data) st2
                 else compareResults L i (value' snap) (TrimSpace data) st2) of
             (Inl e, st3) \<Rightarrow> (Inl e, st3)
           | (Inr d, st3) \<Rightarrow>
               (if d \<noteq> [] then
                  (if shouldUpdate st3 then
                     (let st4 = Printf (''Updating snapshot '' @ [CHR 0x60] @ i @ [CHR 0x60, NL]) st3 in
                      case updateSnapshot i data st4 of
                        (Inl e, st5) \<Rightarrow> (Inl e, st5)
                      | (Inr (_, Some err), st5) \<Rightarrow> t_Fatal err st5
                      | (Inr (_, None), st5) \<Rightarrow> (Inr (), st5))
                   else (Inr (), t_Error (didNotMatchMessage i d) st3))
                else (Inr (), st3))))"

text \<open>\<^verbatim>\<open>Assert\<close>, given the string of the value, and \<^verbatim>\<open>assertHTTP\<close>, given the dump.\<close>

definition Assert :: "libs \<Rightarrow> string \<Rightarrow> string \<Rightarrow> state \<Rightarrow> (failure + unit) \<times> state" where
  "Assert L i data st = createOrUpdateSnapshot L i data SnapshotGeneric st"

definition assertHTTP :: "libs \<Rightarrow> string \<Rightarrow> string \<Rightarrow> bool \<Rightarrow> state \<Rightarrow> (failure + unit) \<times> state" where
  "assertHTTP L i body_bytes isJSON st =
     (case getConfig st of
        (_, Some err) \<Rightarrow> t_Fatal err st
      | (c, None) \<Rightarrow>
          (case configCleanup L c (plainToInternalRequest body_bytes) of
             Inl e \<Rightarrow> (Inl e, st)
           | Inr h \<Rightarrow>
               (if isJSON then
                  (case jsonBodyCleanup L c h of
                     Inl e \<Rightarrow> (Inl e, st)
                   | Inr (Some err, _) \<Rightarrow> t_Fatal err st
                   | Inr (None, h') \<Rightarrow> createOrUpdateSnapshot L i (dump h') SnapshotHTTPRespJSON st)
                else createOrUpdateSnapshot L i (dump h) SnapshotGeneric st)))"

section \<open>Stand-ins for the libraries\<close>

text \<open>
  To evaluate the model on a concrete input the libraries need values.  These stand-ins
  compute what the libraries compute on the inputs they are used on below: texts that
  are equal or differ at one end, and empty JSON bodies.  Elsewhere they are coarser
  than the libraries (a difference in the middle of a text is one deletion and one
  insertion; a non-empty body counts as valid JSON; only the empty object and
  \<^verbatim>\<open>null\<close> are decoded).
\<close>

fun commonPrefix :: "string \<Rightarrow> string \<Rightarrow> string" where
  "commonPrefix (x # xs) (y # ys) = (if x = y then x # commonPrefix xs ys else [])"
| "commonPrefix xs ys = []"

definition standin_DiffMain :: "string \<Rightarrow> string \<Rightarrow> Diff list" where
  "standin_DiffMain a b =
     (if a = b then (if a = [] then [] else [(DiffEqual, a)])
      else let p = commonPrefix a b;
               a1 = drop (length p) a;
               b1 = drop (length p) b;
               q = rev (commonPrefix (rev a1) (rev b1));
               a2 = take (length a1 - length q) a1;
               b2 = take (length b1 - length q) b1
           in filter (\<lambda>d. snd d \<noteq> []) [(DiffEqual, p), (DiffDelete, a2), (DiffInsert, b2), (DiffEqual, q)])"

fun standin_DiffPrettyText :: "Diff list \<Rightarrow> string" where
  "standin_DiffPrettyText [] = []"
| "standin_DiffPrettyText ((DiffInsert, text) # ds) =
     ([CHR 0x1B] @ ''[32m'') @ text @ ([CHR 0x1B] @ ''[0m'') @ standin_DiffPrettyText ds"
| "standin_DiffPrettyText ((DiffDelete, text) # ds) =
     ([CHR 0x1B] @ ''[31m'') @ text @ ([CHR 0x1B] @ ''[0m'') @ standin_DiffPrettyText ds"
| "standin_DiffPrettyText ((DiffEqual, text) # ds) = text @ standin_DiffPrettyText ds"

definition standin_ToUnified :: "string \<Rightarrow> string \<Rightarrow> string \<Rightarrow> string" where
  "standin_ToUnified i a b =
     (if a = b then []
      else ''--- a.txt'' @ [NL] @ ''+++ b.txt'' @ [NL] @ ''-'' @ a @ [NL] @ ''+'' @ b @ [NL])"

definition standin_Compare :: "string \<Rightarrow> string \<Rightarrow> Difference \<times> string" where
  "standin_Compare a b =
     (if a = [] \<and> b = [] then (BothArgsAreInvalidJson, ''both arguments are invalid json'')
      else if a = [] then (FirstArgIsInvalidJson, ''first argument is invalid json'')
      else if b = [] then (SecondArgIsInvalidJson, ''second argument is invalid json'')
      else if a = b then (FullMatch, a)
      else (NoMatch, a @ '' => '' @ b))"

definition standin_Unmarshal :: "string \<Rightarrow> (string \<times> iface) list option \<times> failure option" where
  "standin_Unmarshal data =
     (if TrimSpace data = ''{}'' then (Some [], None)
      else if TrimSpace data = ''null'' then (None, None)
      else (None, Some (ErrJSON data)))"

definition standin_MarshalIndent :: "(string \<times> iface) list option \<Rightarrow> string \<times> failure option" where
  "standin_MarshalIndent m =
     (case m of
        None \<Rightarrow> (''null'', None)
      | Some [] \<Rightarrow> (''{}'', None)
      | Some (e # es) \<Rightarrow> ([], Some (ErrJSON [])))"

fun standin_Sprint :: "iface \<Rightarrow> string" where
  "standin_Sprint (JString s) = s"
| "standin_Sprint JNil = ''%!s(<nil>)''"
| "standin_Sprint (JBool b) = (if b then ''%!s(bool=true)'' else ''%!s(bool=false)'')"
| "standin_Sprint v = ''%!s(?)''"

definition standins :: libs where
  "standins =
     \<lparr>DiffMain = standin_DiffMain, DiffPrettyText = standin_DiffPrettyText,
      ToUnified = standin_ToUnified, Compare = standin_Compare,
      Unmarshal = standin_Unmarshal, MarshalIndent = standin_MarshalIndent,
      Sprint = standin_Sprint\<rparr>"

section \<open>Notions used in the statements, and sample states\<close>

text \<open>The number of snapshots of a registry that were not evaluated.\<close>

definition unused :: "snapshots \<Rightarrow> nat" where
  "unused m = length (filter (\<lambda>e. \<not> evaluated (snd e)) m)"

definition sample_fs :: filesystem where
  "sample_fs = \<lparr>getwd = Some ''/w/pkg'', dirs = [''/w'', ''/w/pkg''], files = [], denied = []\<rparr>"

definition sample_state :: state where
  "sample_state =
     \<lparr>shouldUpdate = False, singleRun = False, SnapshotsDir = ''__snapshots__'',
      allSnapshots = None, snapshotsLoaded = False, getConfig = (None, None),
      fs = sample_fs, stdout = [], stderr = [], t_failed = False, t_errors = []\<rparr>"

definition sample_registry :: snapshots where
  "sample_registry =
     [(''a'', \<lparr>id' = ''a'', value' = ''1'', path = ''/w/pkg/__snapshots__/pkg.snapshot'',
              evaluated = True, shouldRemove = False\<rparr>),
      (''b'', \<lparr>id' = ''b'', value' = ''2'', path = ''/w/pkg/__snapshots__/pkg.snapshot'',
              evaluated = False, shouldRemove = False\<rparr>),
      (''c'', \<lparr>id' = ''c'', value' = ''3'', path = ''/w/pkg/__snapshots__/other.snapshot'',
              evaluated = False, shouldRemove = True\<rparr>),
      (''d'', \<lparr>id' = ''d'', value' = ''4'', path = [],
              evaluated = True, shouldRemove = False\<rparr>)]"

text \<open>
  The snapshots of the registry \<open>s\<close> that \<^verbatim>\<open>save\<close> is to write to the file \<open>p\<close>:
  those whose path is \<open>p\<close> and that are not marked for removal.
\<close>

definition recordsFor :: "snapshots \<Rightarrow> string \<Rightarrow> snapshots" where
  "recordsFor s p = filter (\<lambda>e. path (snd e) = p \<and> \<not> shouldRemove (snd e)) s"

text \<open>
  What the registry is in every state the program reaches: a map (one entry per key)
  whose entry under a key is the snapshot with that identifier.
\<close>

definition wf_registry :: "snapshots \<Rightarrow> bool" where
  "wf_registry s = (distinct (map fst s) \<and> list_all (\<lambda>e. id' (snd e) = fst e) s)"

definition wf_state :: "state \<Rightarrow> bool" where
  "wf_state st = wf_registry (entries st)"

text \<open>The snapshots of a registry with the path \<open>p\<close>, in the order of the registry.\<close>

definition grp :: "snapshots \<Rightarrow> string \<Rightarrow> snapshot list" where
  "grp s p = filter (\<lambda>x. path x = p) (map snd s)"

text \<open>
  One block of a snapshot file as \<^verbatim>\<open>encode\<close> writes it: the delimiter line with the
  identifier, the value, and the blank line that separates it from the next block.
\<close>

definition block :: "string \<Rightarrow> string \<Rightarrow> string" where
  "block i v = snapshotSeparator @ i @ '' */'' @ [NL] @ v @ [NL, NL]"

text \<open>The dump of a request with the content type JSON and no body.\<close>

definition sample_request :: string where
  "sample_request =
     ''GET /items HTTP/1.1'' @ [CHR 0x0D, NL] @ ''Host: example.com'' @ [CHR 0x0D, NL]
     @ ''Content-Type: application/json'' @ [CHR 0x0D, NL, CHR 0x0D, NL]"








section \<open>Facts about the string functions\<close>

lemma Index_single:
  "Index s [c] = (if c \<in> set s then Some (length (takeWhile (\<lambda>x. x \<noteq> c) s)) else None)"
  by (induction s) (auto simp: HasPrefix_def)

lemma Count_eq_0: "sep \<noteq> [] \<Longrightarrow> Index s sep = None \<Longrightarrow> Count s sep = 0"
  by (simp add: Count.simps)

lemma Count_Suc:
  "sep \<noteq> [] \<Longrightarrow> Index s sep = Some i \<Longrightarrow>
     Count s sep = Suc (Count (drop (i + length sep) s) sep)"
  by (simp add: Count.simps)

text \<open>The first piece of a split at a one-byte separator is the text before its first occurrence.\<close>

lemma Split_single_first:
  "index (Split s [c]) 0 = Inr (takeWhile (\<lambda>x. x \<noteq> c) s)"
proof (cases "c \<in> set s")
  case False
  then have "Index s [c] = None" by (simp add: Index_single)
  then have S: "Split s [c] = [s]"
    by (simp add: Split_def genSplit_def Count_eq_0)
  have tw: "takeWhile (\<lambda>x. x \<noteq> c) s = s"
    using False by (auto simp: takeWhile_eq_all_conv)
  show ?thesis unfolding S tw by (simp add: index_def)
next
  case True
  let ?m = "length (takeWhile (\<lambda>x. x \<noteq> c) s)"
  have I: "Index s [c] = Some ?m" using True by (simp add: Index_single)
  obtain n where C: "Count s [c] = Suc n"
    using Count_Suc [OF _ I] by auto
  have "s \<noteq> []" using True by auto
  then obtain j where L: "length s = Suc j" by (cases s) auto
  define k where
    "k = (if Count s [c] + 1 > length s + 1 then length s + 1 else Count s [c] + 1) - 1"
  have "k \<noteq> 0" using C L by (simp add: k_def)
  then obtain k' where K: "k = Suc k'" by (cases k) auto
  have "Split s [c] = splitLoop s [c] 0 k"
    by (simp add: Split_def genSplit_def Let_def k_def)
  also have "\<dots> = take ?m s # splitLoop (drop (?m + 1) s) [c] 0 k'"
    unfolding K by (simp add: I)
  finally have "Split s [c] = take ?m s # splitLoop (drop (?m + 1) s) [c] 0 k'" .
  moreover have "take ?m s = takeWhile (\<lambda>x. x \<noteq> c) s"
    by (rule takeWhile_eq_take [symmetric])
  ultimately show ?thesis by (simp add: index_def)
qed

lemma HasSuffix_append: "HasSuffix (a @ suffix) suffix"
  by (simp add: HasSuffix_def)

lemma HasPrefix_append: "HasPrefix (prefix @ b) prefix"
  by (simp add: HasPrefix_def)

section \<open>Content-type classification\<close>

lemma contentTypeIsJSON_vendor:
  assumes "CHR '';'' \<notin> set s"
  shows "contentTypeIsJSON (''application/vnd.'' @ s @ ''+json'') = Inr True"
proof -
  let ?v = "''application/vnd.'' @ s @ ''+json''"
  have tw: "takeWhile (\<lambda>x. x \<noteq> CHR '';'') ?v = ?v"
    using assms by (auto simp: takeWhile_eq_all_conv)
  have p: "HasPrefix ?v ''application/vnd.''" by (rule HasPrefix_append)
  have "HasSuffix ((''application/vnd.'' @ s) @ ''+json'') ''+json''" by (rule HasSuffix_append)
  then have q: "HasSuffix ?v ''+json''" by simp
  show ?thesis
    unfolding contentTypeIsJSON_def Let_def Split_single_first tw
    using p q by simp
qed

lemma contentTypeIsJSON_examples:
  "contentTypeIsJSON ''application/json'' = Inr True"
  "contentTypeIsJSON ''application/vnd.acme.v1+json'' = Inr True"
  "contentTypeIsJSON ''text/plain'' = Inr False"
  "contentTypeIsJSON ''application/jsonish'' = Inr False"
  by code_simp+

text \<open>
  Claim C7.  \<^verbatim>\<open>contentTypeIsJSON\<close> returns true for \<^verbatim>\<open>application/json\<close> and for every
  vendor media type \<^verbatim>\<open>application/vnd.\<close>\<open>s\<close>\<^verbatim>\<open>+json\<close> (\<open>s\<close> any text without a semicolon,
  such as \<^verbatim>\<open>acme.v1\<close>), and false for \<^verbatim>\<open>text/plain\<close> and \<^verbatim>\<open>application/jsonish\<close>.  It
  never panics on these values.
\<close>

theorem contentTypeIsJSON_classification:
  "contentTypeIsJSON ''application/json'' = Inr True
   \<and> (\<forall>s. CHR '';'' \<notin> set s \<longrightarrow>
          contentTypeIsJSON (''application/vnd.'' @ s @ ''+json'') = Inr True)
   \<and> contentTypeIsJSON ''application/vnd.acme.v1+json'' = Inr True
   \<and> contentTypeIsJSON ''text/plain'' = Inr False
   \<and> contentTypeIsJSON ''application/jsonish'' = Inr False"
proof -
  have v: "\<forall>s. CHR '';'' \<notin> set s \<longrightarrow>
      contentTypeIsJSON (''application/vnd.'' @ s @ ''+json'') = Inr True"
    by (intro allI impI) (rule contentTypeIsJSON_vendor)
  show ?thesis
    by (intro conjI v contentTypeIsJSON_examples)
qed

theorem contentTypeIsJSON_classification_witness:
  "CHR '';'' \<notin> set ''acme.v1''
   \<and> contentTypeIsJSON (''application/vnd.'' @ ''acme.v1'' @ ''+json'') = Inr True
   \<and> contentTypeIsJSON ''text/plain'' = Inr False"
proof -
  note c = contentTypeIsJSON_classification
  have h: "CHR '';'' \<notin> set ''acme.v1''" by simp
  have v: "contentTypeIsJSON (''application/vnd.'' @ ''acme.v1'' @ ''+json'') = Inr True"
    by (rule mp [OF spec [OF conjunct1 [OF conjunct2 [OF c]]] h])
  have t: "contentTypeIsJSON ''text/plain'' = Inr False"
    by (rule conjunct1 [OF conjunct2 [OF conjunct2 [OF conjunct2 [OF c]]]])
  show ?thesis by (intro conjI h v t)
qed

text \<open>
  Claim C8.  The classification ignores media-type parameters: the result for any value
  is the result for its part before the first semicolon, so
  \<^verbatim>\<open>application/json; charset=utf-8\<close> is classified as JSON.
\<close>

theorem contentTypeIsJSON_ignores_parameters:
  "contentTypeIsJSON v = contentTypeIsJSON (takeWhile (\<lambda>c. c \<noteq> CHR '';'') v)
   \<and> contentTypeIsJSON (p @ '';'' @ params) = contentTypeIsJSON (takeWhile (\<lambda>c. c \<noteq> CHR '';'') p)
   \<and> contentTypeIsJSON ''application/json; charset=utf-8'' = Inr True"
proof -
  have a: "contentTypeIsJSON w = contentTypeIsJSON (takeWhile (\<lambda>c. c \<noteq> CHR '';'') w)" for w
    by (simp add: contentTypeIsJSON_def Let_def Split_single_first)
  have "takeWhile (\<lambda>c. c \<noteq> CHR '';'') (p @ '';'' @ params) = takeWhile (\<lambda>c. c \<noteq> CHR '';'') p"
    by (induction p) auto
  then have b: "contentTypeIsJSON (p @ '';'' @ params)
      = contentTypeIsJSON (takeWhile (\<lambda>c. c \<noteq> CHR '';'') p)"
    using a [of "p @ '';'' @ params"] by (simp only:)
  have c: "contentTypeIsJSON ''application/json; charset=utf-8'' = Inr True"
    by code_simp
  show ?thesis by (intro conjI a b c)
qed

section \<open>Cleanup\<close>

lemma unusedLoop_eq:
  "unusedLoop m n err =
     (n + unused m,
      err @ map (\<lambda>e. ''Unused snapshot '' @ [CHR 0x60] @ id' (snd e) @ [CHR 0x60, NL])
              (filter (\<lambda>e. \<not> evaluated (snd e)) m))"
  by (induction m n err rule: unusedLoop.induct) (simp_all add: unused_def)

lemma unused_pos: "(0 < unused m) = (\<exists>e \<in> set m. \<not> evaluated (snd e))"
  by (simp add: unused_def filter_empty_conv)

text \<open>
  Claim C5.  In single-run mode \<^verbatim>\<open>CleanupOrFail\<close> returns nil and changes nothing.  With
  single-run mode and update mode both off it returns an error exactly when some snapshot
  of the registry has \<^verbatim>\<open>evaluated = false\<close>, the error carries the number of these
  snapshots, and the registry and the files stay as they are.
\<close>

theorem CleanupOrFail_unused_count:
  "(singleRun st \<longrightarrow> CleanupOrFail st = (Inr None, st))
   \<and> (\<not> singleRun st \<and> \<not> shouldUpdate st \<longrightarrow>
        fst (CleanupOrFail st) =
          (if unused (entries st) = 0 then Inr None
           else Inr (Some (ErrUnusedSnapshots (unused (entries st)))))
        \<and> (fst (CleanupOrFail st) \<noteq> Inr None \<longleftrightarrow>
             (\<exists>e \<in> set (entries st). \<not> evaluated (snd e)))
        \<and> allSnapshots (snd (CleanupOrFail st)) = allSnapshots st
        \<and> fs (snd (CleanupOrFail st)) = fs st)"
proof (intro conjI impI)
  assume "singleRun st"
  then show "CleanupOrFail st = (Inr None, st)" by (simp add: CleanupOrFail_def)
next
  assume a: "\<not> singleRun st \<and> \<not> shouldUpdate st"
  then have r: "fst (CleanupOrFail st) =
      (if unused (entries st) = 0 then Inr None
       else Inr (Some (ErrUnusedSnapshots (unused (entries st)))))"
    by (simp add: CleanupOrFail_def unusedLoop_eq)
  then show "fst (CleanupOrFail st) =
      (if unused (entries st) = 0 then Inr None
       else Inr (Some (ErrUnusedSnapshots (unused (entries st)))))" .
  show "(fst (CleanupOrFail st) \<noteq> Inr None) = (\<exists>e \<in> set (entries st). \<not> evaluated (snd e))"
    using r unused_pos [of "entries st"] by (cases "unused (entries st) = 0") simp_all
  show "allSnapshots (snd (CleanupOrFail st)) = allSnapshots st"
    using a by (simp add: CleanupOrFail_def unusedLoop_eq Let_def)
  show "fs (snd (CleanupOrFail st)) = fs st"
    using a by (simp add: CleanupOrFail_def unusedLoop_eq Let_def)
qed

theorem CleanupOrFail_unused_count_witness:
  "\<not> singleRun (sample_state\<lparr>allSnapshots := Some sample_registry\<rparr>)
   \<and> \<not> shouldUpdate (sample_state\<lparr>allSnapshots := Some sample_registry\<rparr>)
   \<and> fst (CleanupOrFail (sample_state\<lparr>allSnapshots := Some sample_registry\<rparr>))
       = Inr (Some (ErrUnusedSnapshots 2))
   \<and> CleanupOrFail (sample_state\<lparr>singleRun := True\<rparr>) = (Inr None, sample_state\<lparr>singleRun := True\<rparr>)"
proof -
  let ?st = "sample_state\<lparr>allSnapshots := Some sample_registry\<rparr>"
  have h1: "\<not> singleRun ?st" and h2: "\<not> shouldUpdate ?st"
    by (simp_all add: sample_state_def)
  have u: "unused (entries ?st) = 2"
    by (simp add: unused_def entries_def sample_registry_def)
  have "fst (CleanupOrFail ?st) = Inr (Some (ErrUnusedSnapshots 2))"
    using CleanupOrFail_unused_count [of ?st] h1 h2 u by simp
  moreover have "CleanupOrFail (sample_state\<lparr>singleRun := True\<rparr>)
      = (Inr None, sample_state\<lparr>singleRun := True\<rparr>)"
    using CleanupOrFail_unused_count [of "sample_state\<lparr>singleRun := True\<rparr>"] by simp
  ultimately show ?thesis using h1 h2 by simp
qed

section \<open>Loading the registry once\<close>

lemma loadSnapshots_sets_flag: "snapshotsLoaded (snd (loadSnapshots st))"
  by (cases "reloadSnapshots st") (simp add: loadSnapshots_def)

lemma loadSnapshots_again: "snapshotsLoaded st \<Longrightarrow> loadSnapshots st = (Inr None, st)"
  by (simp add: loadSnapshots_def)

lemma reloadSnapshots_failed:
  "fst (reloadSnapshots st) = Inr (Some err) \<Longrightarrow>
     allSnapshots (snd (reloadSnapshots st)) = allSnapshots st"
  by (auto simp: reloadSnapshots_def parseSnapshotsFromPaths_def Let_def
      split: prod.splits option.splits sum.splits)

lemma loadSnapshots_failed:
  assumes "fst (loadSnapshots st) = Inr (Some err)"
  shows "allSnapshots (snd (loadSnapshots st)) = allSnapshots st"
proof (cases "snapshotsLoaded st")
  case True
  then show ?thesis by (simp add: loadSnapshots_again)
next
  case False
  with assms have "fst (reloadSnapshots st) = Inr (Some err)"
    by (cases "reloadSnapshots st") (simp add: loadSnapshots_def)
  from reloadSnapshots_failed [OF this] False show ?thesis
    by (cases "reloadSnapshots st") (simp add: loadSnapshots_def)
qed

lemma getSnapshot_loaded_nil:
  "snapshotsLoaded st \<Longrightarrow> allSnapshots st = None \<Longrightarrow> getSnapshot i st = (Inr None, st)"
  by (simp add: getSnapshot_def loadSnapshots_again entries_def)

lemma snapshotsLoaded_save_irrelevant:
  "snapshotsLoaded (st\<lparr>fs := f, allSnapshots := m\<rparr>) = snapshotsLoaded st"
  by simp

lemma writeSnapshot_keeps_flag:
  "snapshotsLoaded st \<Longrightarrow> snapshotsLoaded (snd (writeSnapshot i v u st))"
  by (auto simp: writeSnapshot_def loadSnapshots_again Let_def
      split: prod.splits option.splits sum.splits)

lemma Cleanup_keeps_flag: "snapshotsLoaded st \<Longrightarrow> snapshotsLoaded (snd (Cleanup st))"
  by (simp add: Cleanup_def Let_def split: prod.splits)

lemma CleanupOrFail_keeps_flag: "snapshotsLoaded st \<Longrightarrow> snapshotsLoaded (snd (CleanupOrFail st))"
  by (simp add: CleanupOrFail_def Cleanup_keeps_flag Let_def split: prod.splits)

lemma compareResults_keeps_flag:
  "snapshotsLoaded st \<Longrightarrow> snapshotsLoaded (snd (compareResults L i a b st))"
  by (auto simp: compareResults_def t_Fatal_def Let_def split: prod.splits option.splits)

lemma compareResultsHTTPRequestJSON_keeps_flag:
  "snapshotsLoaded st \<Longrightarrow> snapshotsLoaded (snd (compareResultsHTTPRequestJSON L a b st))"
  by (auto simp: compareResultsHTTPRequestJSON_def t_Fatal_def Let_def
      split: prod.splits option.splits sum.splits Difference.splits)

lemma getSnapshot_keeps_flag: "snapshotsLoaded (snd (getSnapshot i st))"
proof (cases "loadSnapshots st")
  case (Pair r st1)
  then have "snapshotsLoaded st1" using loadSnapshots_sets_flag [of st] by simp
  with Pair show ?thesis
    by (simp add: getSnapshot_def split: sum.splits option.splits)
qed

lemma setEvaluated_keeps_flag [simp]: "snapshotsLoaded (setEvaluated i st) = snapshotsLoaded st"
  by (simp add: setEvaluated_def)

lemma t_Error_keeps_flag [simp]: "snapshotsLoaded (t_Error m st) = snapshotsLoaded st"
  by (simp add: t_Error_def)

lemma Printf_keeps_flag [simp]: "snapshotsLoaded (Printf m st) = snapshotsLoaded st"
  by (simp add: Printf_def)

lemma t_Fatal_keeps_flag [simp]: "snapshotsLoaded (snd (t_Fatal e st)) = snapshotsLoaded st"
  by (simp add: t_Fatal_def)

lemma createOrUpdateSnapshot_keeps_flag:
  "snapshotsLoaded (snd (createOrUpdateSnapshot L i d fmt st))"
proof (cases "getSnapshot i st")
  case (Pair r st1)
  then have l: "snapshotsLoaded st1" using getSnapshot_keeps_flag [of i st] by simp
  have w: "snapshotsLoaded (snd (writeSnapshot i d u s))" if "snapshotsLoaded s" for u s
    using that by (rule writeSnapshot_keeps_flag)
  have c1: "snapshotsLoaded (snd (compareResults L i a b s))" if "snapshotsLoaded s" for a b s
    using that by (rule compareResults_keeps_flag)
  have c2: "snapshotsLoaded (snd (compareResultsHTTPRequestJSON L a b s))"
    if "snapshotsLoaded s" for a b s
    using that by (rule compareResultsHTTPRequestJSON_keeps_flag)
  show ?thesis
  proof (cases r)
    case (Inl e)
    with Pair l show ?thesis by (simp add: createOrUpdateSnapshot_def)
  next
    case (Inr found)
    show ?thesis
    proof (cases found)
      case None
      let ?s2 = "Printf (''Creating snapshot '' @ [CHR 0x60] @ i @ [CHR 0x60, NL]) st1"
      have "snapshotsLoaded (snd (createSnapshot i d ?s2))"
        unfolding createSnapshot_def using l by (intro w) simp
      with Pair Inr None l show ?thesis
        by (cases "createSnapshot i d ?s2")
          (auto simp: createOrUpdateSnapshot_def split: sum.splits option.splits prod.splits)
    next
      case (Some snap)
      let ?s2 = "setEvaluated i st1"
      let ?cmp = "if fmt = SnapshotHTTPRespJSON
                 then compareResultsHTTPRequestJSON L (value' snap) (TrimSpace d) ?s2
                 else compareResults L i (value' snap) (TrimSpace d) ?s2"
      obtain r3 st3 where cmp: "?cmp = (r3, st3)" by (cases ?cmp)
      have l3: "snapshotsLoaded st3"
        using c1 [of ?s2 "value' snap" "TrimSpace d"] c2 [of ?s2 "value' snap" "TrimSpace d"] l cmp
        by (auto split: if_splits)
      let ?s4 = "Printf (''Updating snapshot '' @ [CHR 0x60] @ i @ [CHR 0x60, NL]) st3"
      have l5: "snapshotsLoaded (snd (updateSnapshot i d ?s4))"
        unfolding updateSnapshot_def using l3 by (intro w) simp
      from Pair Inr Some cmp l3 l5 show ?thesis
        by (cases "updateSnapshot i d ?s4")
          (auto simp: createOrUpdateSnapshot_def Let_def split: sum.splits option.splits prod.splits)
    qed
  qed
qed

text \<open>
  Claim C10.  The load runs at most once.  After a first call of \<^verbatim>\<open>loadSnapshots\<close>,
  whatever it returned, the \<^verbatim>\<open>sync.Once\<close> has run, and a call in a state where it has
  run returns a nil error and changes nothing: the directory is not scanned again.  When
  the first call returned an error the registry is as it was before; if it was the nil
  map, \<^verbatim>\<open>getSnapshot\<close> finds no snapshot afterwards and reports no error.  (The lemmas
  above show that no other operation resets the \<^verbatim>\<open>sync.Once\<close>.)
\<close>

theorem loadSnapshots_runs_once:
  "snapshotsLoaded (snd (loadSnapshots st))
   \<and> loadSnapshots (snd (loadSnapshots st)) = (Inr None, snd (loadSnapshots st))
   \<and> (snapshotsLoaded st \<longrightarrow> loadSnapshots st = (Inr None, st))
   \<and> (\<forall>err. fst (loadSnapshots st) = Inr (Some err) \<longrightarrow>
         allSnapshots (snd (loadSnapshots st)) = allSnapshots st
         \<and> (allSnapshots st = None \<longrightarrow>
              (\<forall>i. getSnapshot i (snd (loadSnapshots st)) = (Inr None, snd (loadSnapshots st)))))"
proof (intro conjI allI impI)
  show "snapshotsLoaded (snd (loadSnapshots st))" by (rule loadSnapshots_sets_flag)
  show "loadSnapshots (snd (loadSnapshots st)) = (Inr None, snd (loadSnapshots st))"
    by (rule loadSnapshots_again [OF loadSnapshots_sets_flag])
  show "loadSnapshots st = (Inr None, st)" if "snapshotsLoaded st"
    using that by (rule loadSnapshots_again)
  show "allSnapshots (snd (loadSnapshots st)) = allSnapshots st"
    if "fst (loadSnapshots st) = Inr (Some err)" for err
    using that by (rule loadSnapshots_failed)
  show "getSnapshot i (snd (loadSnapshots st)) = (Inr None, snd (loadSnapshots st))"
    if "fst (loadSnapshots st) = Inr (Some err)" and "allSnapshots st = None" for err i
    using that loadSnapshots_failed [of st err]
    by (intro getSnapshot_loaded_nil loadSnapshots_sets_flag) simp
qed

theorem loadSnapshots_runs_once_witness:
  "fst (loadSnapshots (sample_state\<lparr>fs := sample_fs\<lparr>getwd := None\<rparr>\<rparr>))
     = Inr (Some ErrUnableToLocateTestPath)
   \<and> allSnapshots (sample_state\<lparr>fs := sample_fs\<lparr>getwd := None\<rparr>\<rparr>) = None
   \<and> loadSnapshots (snd (loadSnapshots (sample_state\<lparr>fs := sample_fs\<lparr>getwd := None\<rparr>\<rparr>)))
     = (Inr None, snd (loadSnapshots (sample_state\<lparr>fs := sample_fs\<lparr>getwd := None\<rparr>\<rparr>)))
   \<and> getSnapshot ''greet'' (snd (loadSnapshots (sample_state\<lparr>fs := sample_fs\<lparr>getwd := None\<rparr>\<rparr>)))
     = (Inr None, snd (loadSnapshots (sample_state\<lparr>fs := sample_fs\<lparr>getwd := None\<rparr>\<rparr>)))"
proof -
  let ?st = "sample_state\<lparr>fs := sample_fs\<lparr>getwd := None\<rparr>\<rparr>"
  note t = loadSnapshots_runs_once [of ?st]
  have f: "fst (loadSnapshots ?st) = Inr (Some ErrUnableToLocateTestPath)"
    by (simp add: loadSnapshots_def reloadSnapshots_def findOrCreateSnapshotDirectory_def
        getTestingPath_def os_Getwd_def sample_state_def sample_fs_def)
  have n: "allSnapshots ?st = None" by (simp add: sample_state_def)
  have a: "loadSnapshots (snd (loadSnapshots ?st)) = (Inr None, snd (loadSnapshots ?st))"
    by (rule conjunct1 [OF conjunct2 [OF t]])
  have "\<forall>err. fst (loadSnapshots ?st) = Inr (Some err) \<longrightarrow>
         allSnapshots (snd (loadSnapshots ?st)) = allSnapshots ?st
         \<and> (allSnapshots ?st = None \<longrightarrow>
              (\<forall>i. getSnapshot i (snd (loadSnapshots ?st)) = (Inr None, snd (loadSnapshots ?st))))"
    by (rule conjunct2 [OF conjunct2 [OF conjunct2 [OF t]]])
  with f n have g: "getSnapshot ''greet'' (snd (loadSnapshots ?st)) = (Inr None, snd (loadSnapshots ?st))"
    by blast
  show ?thesis by (intro conjI f n a g)
qed

section \<open>The registry stays a map from identifiers to their snapshots\<close>

text \<open>
  \<^const>\<open>wf_registry\<close> holds of the nil registry the process starts with, and every
  operation keeps it: decoding a file, merging the files, writing a snapshot, marking
  snapshots, and the assertion itself.
\<close>

lemma list_all_update:
  "list_all P al \<Longrightarrow> P (k, v) \<Longrightarrow> list_all P (AList.update k v al)"
  by (induction al) auto

lemma wf_registry_update:
  "wf_registry m \<Longrightarrow> id' s = i \<Longrightarrow> wf_registry (AList.update i s m)"
  by (simp add: wf_registry_def distinct_update list_all_update)

lemma wf_registry_Nil [simp]: "wf_registry []"
  by (simp add: wf_registry_def)

lemma wf_registry_decodeLoop:
  "wf_registry acc \<Longrightarrow> decodeLoop pieces acc = Inr snaps \<Longrightarrow> wf_registry snaps"
proof (induction pieces arbitrary: acc)
  case Nil
  then show ?case by simp
next
  case (Cons s pieces)
  show ?case
  proof (cases "s = []")
    case True
    with Cons show ?thesis by simp
  next
    case False
    with Cons.prems(2) obtain c0 c1 where
      "decodeLoop pieces
         (AList.update (TrimSuffix c0 ('' */'' @ [NL]))
            \<lparr>id' = TrimSuffix c0 ('' */'' @ [NL]), value' = TrimSpace c1, path = [],
             evaluated = False, shouldRemove = False\<rparr> acc) = Inr snaps"
      by (auto simp: Let_def split: sum.splits)
    moreover have "wf_registry
         (AList.update (TrimSuffix c0 ('' */'' @ [NL]))
            \<lparr>id' = TrimSuffix c0 ('' */'' @ [NL]), value' = TrimSpace c1, path = [],
             evaluated = False, shouldRemove = False\<rparr> acc)"
      using Cons.prems(1) by (intro wf_registry_update) simp_all
    ultimately show ?thesis by (rule Cons.IH [rotated])
  qed
qed

lemma wf_registry_decode: "decode data = Inr (snaps, err) \<Longrightarrow> wf_registry snaps"
  by (auto simp: decode_def split: sum.splits dest: wf_registry_decodeLoop [rotated])

lemma wf_registry_mergeLoop:
  "wf_registry s \<Longrightarrow> wf_registry snaps \<Longrightarrow> wf_registry (mergeLoop s p snaps)"
proof (induction s arbitrary: snaps)
  case Nil
  then show ?case by simp
next
  case (Cons e s)
  obtain i snap where e: "e = (i, snap)" by (cases e)
  from Cons.prems(1) e have "wf_registry s" and "id' snap = i"
    by (simp_all add: wf_registry_def)
  then show ?case
    unfolding e using Cons.prems(2) by (auto intro!: Cons.IH wf_registry_update)
qed

lemma wf_registry_parseLoop:
  "wf_registry acc \<Longrightarrow> parseLoop f paths acc = Inr snaps \<Longrightarrow> wf_registry snaps"
proof (induction paths arbitrary: acc)
  case Nil
  then show ?case by simp
next
  case (Cons p paths)
  from Cons.prems(2) consider
      (skip) "parseLoop f paths acc = Inr snaps"
    | (merge) s data where "decode data = Inr (s, None)"
        and "parseLoop f paths (mergeLoop s p acc) = Inr snaps"
    by (auto split: prod.splits option.splits sum.splits)
  then show ?case
  proof cases
    case skip
    from Cons.IH [OF Cons.prems(1) this] show ?thesis .
  next
    case merge
    from wf_registry_decode [OF merge(1)] Cons.prems(1)
    have "wf_registry (mergeLoop s p acc)" by (rule wf_registry_mergeLoop)
    from Cons.IH [OF this merge(2)] show ?thesis .
  qed
qed

lemma wf_state_reloadSnapshots: "wf_state st \<Longrightarrow> wf_state (snd (reloadSnapshots st))"
  by (auto simp: wf_state_def entries_def reloadSnapshots_def parseSnapshotsFromPaths_def Let_def
      split: prod.splits option.splits sum.splits dest: wf_registry_parseLoop [rotated])

lemma wf_state_loadSnapshots: "wf_state st \<Longrightarrow> wf_state (snd (loadSnapshots st))"
  using wf_state_reloadSnapshots [of st]
  by (cases "reloadSnapshots st") (auto simp: loadSnapshots_def wf_state_def entries_def)

lemma wf_state_writeSnapshot: "wf_state st \<Longrightarrow> wf_state (snd (writeSnapshot i v u st))"
proof -
  assume a: "wf_state st"
  obtain r st1 where l: "loadSnapshots st = (r, st1)" by (cases "loadSnapshots st")
  with wf_state_loadSnapshots [OF a] have w1: "wf_state st1" by simp
  then have "wf_registry (AList.update i s m)"
    if "allSnapshots st1 = Some m" and "id' s = i" for s m
    using that by (auto simp: wf_state_def entries_def intro: wf_registry_update)
  with l w1 show ?thesis
    by (auto simp: writeSnapshot_def isValid_def wf_state_def entries_def Let_def
        split: prod.splits option.splits sum.splits)
qed

lemma wf_registry_cleanupLoop: "wf_registry m \<Longrightarrow> wf_registry (fst (cleanupLoop prune m))"
proof -
  have k: "map fst (fst (cleanupLoop prune m)) = map fst m"
    by (induction m) (auto split: prod.splits)
  have i: "list_all (\<lambda>e. id' (snd e) = fst e) m \<Longrightarrow>
      list_all (\<lambda>e. id' (snd e) = fst e) (fst (cleanupLoop prune m))"
    by (induction m) (auto split: prod.splits)
  assume "wf_registry m"
  with k i show ?thesis by (simp add: wf_registry_def)
qed

lemma wf_state_Cleanup: "wf_state st \<Longrightarrow> wf_state (snd (Cleanup st))"
  using wf_registry_cleanupLoop [of "entries st" "shouldUpdate st \<and> \<not> singleRun st"]
  by (auto simp: Cleanup_def wf_state_def entries_def Let_def split: prod.splits option.splits)

lemma wf_state_setEvaluated: "wf_state st \<Longrightarrow> wf_state (setEvaluated i st)"
proof -
  let ?f = "\<lambda>(k, s). if k = i then (k, s\<lparr>evaluated := True\<rparr>) else (k, s::snapshot)"
  have k: "map fst (map ?f m) = map fst m" for m :: snapshots
    by (induction m) auto
  have l: "list_all (\<lambda>e. id' (snd e) = fst e) m \<Longrightarrow>
      list_all (\<lambda>e. id' (snd e) = fst e) (map ?f m)" for m :: snapshots
    by (induction m) auto
  have w: "wf_registry m \<Longrightarrow> wf_registry (map ?f m)" for m :: snapshots
    by (simp only: wf_registry_def k) (simp add: l)
  assume "wf_state st"
  then show ?thesis
    using w by (cases "allSnapshots st") (simp_all add: wf_state_def entries_def setEvaluated_def)
qed

lemma wf_state_output [simp]:
  "wf_state (t_Error msg st) = wf_state st"
  "wf_state (Printf line st) = wf_state st"
  "wf_state (snd (t_Fatal e st)) = wf_state st"
  by (simp_all add: wf_state_def entries_def t_Error_def Printf_def t_Fatal_def)

lemma wf_state_initial: "allSnapshots st = None \<Longrightarrow> wf_state st"
  by (simp add: wf_state_def entries_def)

lemma wf_state_getSnapshot: "wf_state st \<Longrightarrow> wf_state (snd (getSnapshot i st))"
  using wf_state_loadSnapshots [of st]
  by (cases "loadSnapshots st") (auto simp: getSnapshot_def split: sum.splits option.splits)

lemma wf_state_compareResults:
  "wf_state st \<Longrightarrow> wf_state (snd (compareResults L i a b st))"
  by (auto simp: compareResults_def Let_def split: prod.splits option.splits)

lemma wf_state_compareResultsHTTPRequestJSON:
  "wf_state st \<Longrightarrow> wf_state (snd (compareResultsHTTPRequestJSON L a b st))"
  by (auto simp: compareResultsHTTPRequestJSON_def Let_def
      split: prod.splits option.splits sum.splits Difference.splits)

lemma wf_state_CleanupOrFail: "wf_state st \<Longrightarrow> wf_state (snd (CleanupOrFail st))"
proof -
  assume a: "wf_state st"
  have "wf_state (st\<lparr>stderr := e\<rparr>)" for e
    using a by (simp add: wf_state_def entries_def)
  then show ?thesis
    using a by (simp add: CleanupOrFail_def wf_state_Cleanup unusedLoop_eq Let_def)
qed

lemma wf_state_createOrUpdateSnapshot:
  assumes "wf_state st"
  shows "wf_state (snd (createOrUpdateSnapshot L i d fmt st))"
proof (cases "getSnapshot i st")
  case (Pair r st1)
  then have l: "wf_state st1" using wf_state_getSnapshot [OF assms, of i] by simp
  have w: "wf_state (snd (writeSnapshot i d u s))" if "wf_state s" for u s
    using that by (rule wf_state_writeSnapshot)
  show ?thesis
  proof (cases r)
    case (Inl e)
    with Pair l show ?thesis by (simp add: createOrUpdateSnapshot_def)
  next
    case (Inr found)
    show ?thesis
    proof (cases found)
      case None
      let ?s2 = "Printf (''Creating snapshot '' @ [CHR 0x60] @ i @ [CHR 0x60, NL]) st1"
      have "wf_state (snd (createSnapshot i d ?s2))"
        unfolding createSnapshot_def using l by (intro w) simp
      with Pair Inr None l show ?thesis
        by (cases "createSnapshot i d ?s2")
          (auto simp: createOrUpdateSnapshot_def wf_state_setEvaluated
            split: sum.splits option.splits prod.splits)
    next
      case (Some snap)
      let ?s2 = "setEvaluated i st1"
      let ?cmp = "if fmt = SnapshotHTTPRespJSON
                 then compareResultsHTTPRequestJSON L (value' snap) (TrimSpace d) ?s2
                 else compareResults L i (value' snap) (TrimSpace d) ?s2"
      obtain r3 st3 where cmp: "?cmp = (r3, st3)" by (cases ?cmp)
      have l2: "wf_state ?s2" using l by (rule wf_state_setEvaluated)
      have l3: "wf_state st3"
        using wf_state_compareResults [OF l2, of L i "value' snap" "TrimSpace d"]
          wf_state_compareResultsHTTPRequestJSON [OF l2, of L "value' snap" "TrimSpace d"] cmp
        by (auto split: if_splits)
      let ?s4 = "Printf (''Updating snapshot '' @ [CHR 0x60] @ i @ [CHR 0x60, NL]) st3"
      have l5: "wf_state (snd (updateSnapshot i d ?s4))"
        unfolding updateSnapshot_def using l3 by (intro w) simp
      from Pair Inr Some cmp l3 l5 show ?thesis
        by (cases "updateSnapshot i d ?s4")
          (auto simp: createOrUpdateSnapshot_def Let_def split: sum.splits option.splits prod.splits)
    qed
  qed
qed

section \<open>What \<^verbatim>\<open>save\<close> writes\<close>

lemma update_fresh: "k \<notin> fst ` set al \<Longrightarrow> AList.update k v al = al @ [(k, v)]"
  by (induction al) auto

lemma keepLoop_eq:
  "distinct (map fst acc @ map id' (filter (\<lambda>x. \<not> shouldRemove x) snaps)) \<Longrightarrow>
     keepLoop snaps acc = acc @ map (\<lambda>x. (id' x, x)) (filter (\<lambda>x. \<not> shouldRemove x) snaps)"
proof (induction snaps arbitrary: acc)
  case Nil
  then show ?case by simp
next
  case (Cons x snaps)
  show ?case
  proof (cases "shouldRemove x")
    case True
    with Cons show ?thesis by simp
  next
    case False
    with Cons.prems have fresh: "id' x \<notin> fst ` set acc" by auto
    have d: "distinct (map fst (acc @ [(id' x, x)]) @ map id' (filter (\<lambda>x. \<not> shouldRemove x) snaps))"
      using Cons.prems False by auto
    show ?thesis
      using False Cons.IH [OF d] by (simp add: update_fresh [OF fresh])
  qed
qed

lemma groupLoop_map_of:
  "map_of (groupLoop s acc) p =
     (if grp s p = [] then map_of acc p
      else Some ((case map_of acc p of None \<Rightarrow> [] | Some ys \<Rightarrow> ys) @ grp s p))"
proof (induction s arbitrary: acc)
  case Nil
  then show ?case by (simp add: grp_def)
next
  case (Cons e s)
  obtain k snap where e: "e = (k, snap)" by (cases e)
  show ?case
    unfolding e
    by (simp add: Cons.IH Let_def grp_def AList.update_conv' split: option.splits)
qed

lemma groupLoop_distinct:
  "distinct (map fst acc) \<Longrightarrow> distinct (map fst (groupLoop s acc))"
proof (induction s arbitrary: acc)
  case Nil
  then show ?case by simp
next
  case (Cons e s)
  obtain k snap where e: "e = (k, snap)" by (cases e)
  show ?case
    unfolding e using Cons.prems
    by (auto simp: Let_def AList.distinct_update intro!: Cons.IH split: option.splits)
qed

lemma WriteFile_files:
  "WriteFile f p data = (None, f') \<Longrightarrow> map_of (files f') q = (if q = p then Some data else map_of (files f) q)"
  by (auto simp: WriteFile_def AList.update_conv' split: if_splits)

lemma WriteFile_failed: "WriteFile f p data = (Some err, f') \<Longrightarrow> f' = f"
  by (auto simp: WriteFile_def split: if_splits)

lemma saveLoop_file:
  "distinct (map fst g) \<Longrightarrow> saveLoop g f = (r, f') \<Longrightarrow>
     (map_of (files f') p = map_of (files f) p
      \<or> (p \<noteq> [] \<and> (\<exists>snaps data. map_of g p = Some snaps
             \<and> encode (keepLoop snaps []) = Inr (data, None)
             \<and> map_of (files f') p = Some data)))
     \<and> (r = Inr None \<longrightarrow> p \<noteq> [] \<longrightarrow>
          (\<forall>snaps. map_of g p = Some snaps \<longrightarrow>
             (\<exists>data. encode (keepLoop snaps []) = Inr (data, None)
                \<and> map_of (files f') p = Some data)))"
proof (induction g arbitrary: f)
  case Nil
  then show ?case by simp
next
  case (Cons a g)
  obtain p0 snaps0 where a: "a = (p0, snaps0)" by (cases a)
  from Cons.prems(1) a have dg: "distinct (map fst g)" and fresh: "map_of g p0 = None"
    by (auto simp: map_of_eq_None_iff)
  show ?case
  proof (cases "p0 = []")
    case True
    with Cons.prems(2) a have "saveLoop g f = (r, f')" by simp
    from Cons.IH [OF dg this] True a show ?thesis by auto
  next
    case False
    show ?thesis
    proof (cases "encode (keepLoop snaps0 [])")
      case (Inl e)
      with Cons.prems(2) a False show ?thesis by auto
    next
      case (Inr res)
      obtain data err where res: "res = (data, err)" by (cases res)
      show ?thesis
      proof (cases err)
        case (Some e)
        with Cons.prems(2) a False Inr res show ?thesis by auto
      next
        case None
        obtain w f1 where W: "WriteFile f p0 data = (w, f1)" by (cases "WriteFile f p0 data")
        show ?thesis
        proof (cases w)
          case (Some e)
          with W have "f1 = f" by (simp add: WriteFile_failed)
          with Cons.prems(2) a False Inr res None W Some show ?thesis by auto
        next
          case wn: None
          with Cons.prems(2) a False Inr res None W have S: "saveLoop g f1 = (r, f')" by simp
          note IH = Cons.IH [OF dg S]
          have F: "map_of (files f1) p = (if p = p0 then Some data else map_of (files f) p)"
            using W wn by (simp add: WriteFile_files)
          show ?thesis
          proof (cases "p = p0")
            case True
            with IH fresh F have "map_of (files f') p = Some data" by auto
            with True False a Inr res None show ?thesis by simp
          next
            case False
            with IH F a show ?thesis by auto
          qed
        qed
      qed
    qed
  qed
qed

lemma keepLoop_grp:
  assumes "wf_registry s"
  shows "keepLoop (grp s p) [] = recordsFor s p"
proof -
  from assms have d: "distinct (map fst s)" and k: "\<forall>e \<in> set s. id' (snd e) = fst e"
    by (simp_all add: wf_registry_def list_all_iff)
  have m: "map id' (filter (\<lambda>x. \<not> shouldRemove x) (grp s p))
      = map fst (filter (\<lambda>e. path (snd e) = p \<and> \<not> shouldRemove (snd e)) s)"
    using k by (induction s) (auto simp: grp_def)
  have "distinct (map fst (filter (\<lambda>e. path (snd e) = p \<and> \<not> shouldRemove (snd e)) s))"
    using d by (rule distinct_map_filter)
  then have "distinct (map fst ([]::snapshots) @ map id' (filter (\<lambda>x. \<not> shouldRemove x) (grp s p)))"
    using m by simp
  from keepLoop_eq [OF this]
  have "keepLoop (grp s p) [] = map (\<lambda>x. (id' x, x)) (filter (\<lambda>x. \<not> shouldRemove x) (grp s p))"
    by simp
  also have "\<dots> = recordsFor s p"
    using k by (induction s) (auto simp: grp_def recordsFor_def)
  finally show ?thesis .
qed

lemma grp_nonempty: "(grp s p \<noteq> []) = (\<exists>e \<in> set s. path (snd e) = p)"
  by (auto simp: grp_def filter_empty_conv)

lemma encodeLoop_ok:
  "set ids \<subseteq> fst ` set snaps \<Longrightarrow> \<exists>buf'. encodeLoop ids snaps buf = Inr buf'"
proof (induction ids arbitrary: buf)
  case Nil
  then show ?case by simp
next
  case (Cons i ids)
  from Cons.prems have "i \<in> fst ` set snaps" by simp
  then obtain s where s: "map_of snaps i = Some s"
    by (cases "map_of snaps i") (auto simp: map_of_eq_None_iff)
  from Cons.prems have "set ids \<subseteq> fst ` set snaps" by simp
  from Cons.IH [OF this] s show ?case by simp
qed

lemma encode_ok: "\<exists>data. encode snaps = Inr (data, None)"
proof -
  have "set (sort (map fst snaps)) \<subseteq> fst ` set snaps" by simp
  from encodeLoop_ok [OF this, of "[]"] show ?thesis by (auto simp: encode_def)
qed

lemma saveLoop_result:
  "saveLoop g f = (r, f') \<Longrightarrow>
     dirs f' = dirs f \<and> denied f' = denied f \<and> getwd f' = getwd f
     \<and> ((r = Inr None) = (\<forall>p \<in> fst ` set g. p \<noteq> [] \<longrightarrow> p \<notin> set (denied f) \<and> p \<notin> set (dirs f)))
     \<and> (r = Inr None
         \<or> (\<exists>q. r = Inr (Some (ErrOS ''write'' q)) \<and> q \<noteq> [] \<and> q \<in> fst ` set g
               \<and> (q \<in> set (denied f) \<or> q \<in> set (dirs f))))"
proof (induction g arbitrary: f)
  case Nil
  then show ?case by auto
next
  case (Cons a g)
  obtain p0 snaps0 where a: "a = (p0, snaps0)" by (cases a)
  show ?case
  proof (cases "p0 = []")
    case True
    with Cons.prems a have "saveLoop g f = (r, f')" by simp
    from Cons.IH [OF this] True a show ?thesis by auto
  next
    case False
    obtain data where E: "encode (keepLoop snaps0 []) = Inr (data, None)"
      using encode_ok by blast
    show ?thesis
    proof (cases "p0 \<in> set (denied f) \<or> p0 \<in> set (dirs f)")
      case True
      then have "WriteFile f p0 data = (Some (ErrOS ''write'' p0), f)"
        by (auto simp: WriteFile_def)
      with Cons.prems a False E have "r = Inr (Some (ErrOS ''write'' p0))" and "f' = f" by auto
      with True False a show ?thesis by auto
    next
      case w: False
      define f1 where "f1 = f\<lparr>files := AList.update p0 data (files f)\<rparr>"
      from w have "WriteFile f p0 data = (None, f1)" by (auto simp: WriteFile_def f1_def)
      with Cons.prems a False E have S: "saveLoop g f1 = (r, f')" by simp
      have fr: "dirs f1 = dirs f" "denied f1 = denied f" "getwd f1 = getwd f"
        by (simp_all add: f1_def)
      from Cons.IH [OF S] fr w False a show ?thesis by auto
    qed
  qed
qed

lemma groupLoop_paths:
  "(p \<in> fst ` set (groupLoop s [])) = (\<exists>e \<in> set s. path (snd e) = p)"
proof -
  have "(p \<in> fst ` set (groupLoop s [])) = (map_of (groupLoop s []) p \<noteq> None)"
    by (simp add: map_of_eq_None_iff)
  also have "\<dots> = (grp s p \<noteq> [])" by (simp add: groupLoop_map_of)
  also have "\<dots> = (\<exists>e \<in> set s. path (snd e) = p)" by (rule grp_nonempty)
  finally show ?thesis .
qed

lemma saveLoop_unwritable:
  "p \<in> set (denied f) \<or> p \<in> set (dirs f) \<Longrightarrow> saveLoop g f = (r, f') \<Longrightarrow>
     map_of (files f') p = map_of (files f) p"
proof (induction g arbitrary: f)
  case Nil
  then show ?case by auto
next
  case (Cons a g)
  obtain p0 snaps0 where a: "a = (p0, snaps0)" by (cases a)
  show ?case
  proof (cases "p0 = []")
    case True
    with Cons.prems a have "saveLoop g f = (r, f')" by simp
    from Cons.IH [OF Cons.prems(1) this] show ?thesis .
  next
    case False
    obtain data where E: "encode (keepLoop snaps0 []) = Inr (data, None)"
      using encode_ok by blast
    obtain w f1 where W: "WriteFile f p0 data = (w, f1)" by (cases "WriteFile f p0 data")
    show ?thesis
    proof (cases w)
      case (Some e)
      with W have "f1 = f" by (simp add: WriteFile_failed)
      with Cons.prems(2) a False E W Some show ?thesis by auto
    next
      case None
      with Cons.prems(2) a False E W have S: "saveLoop g f1 = (r, f')" by simp
      from W None have ne: "p0 \<notin> set (denied f) \<and> p0 \<notin> set (dirs f)"
        and fr: "dirs f1 = dirs f" "denied f1 = denied f"
        by (auto simp: WriteFile_def split: if_splits)
      from ne Cons.prems(1) have "p \<noteq> p0" by auto
      then have F: "map_of (files f1) p = map_of (files f) p"
        using W None by (simp add: WriteFile_files)
      from Cons.prems(1) fr have "p \<in> set (denied f1) \<or> p \<in> set (dirs f1)" by simp
      from Cons.IH [OF this S] F show ?thesis by simp
    qed
  qed
qed

text \<open>
  Claim C6.  Let \<^verbatim>\<open>save\<close> run on a registry \<open>s\<close> (a map from identifiers to their
  snapshots, as the registry is in every state) and a file system \<open>f\<close>, and let \<open>p\<close> be
  any path.  Call a path owned when it is the path of some snapshot of \<open>s\<close>, and
  writable when it is neither a directory nor a path the system refuses to write.
  \<^item> \<^verbatim>\<open>save\<close> does not panic, and it returns nil exactly when every owned non-empty
    path is writable; otherwise it returns the error of the write to an owned non-empty
    path that is not writable.
  \<^item> When \<^verbatim>\<open>save\<close> returns nil, the file of every owned non-empty path holds the
    encoding of exactly the snapshots of \<open>s\<close> with that path that are not marked for
    removal.
  \<^item> In every case the file \<open>p\<close> is as it was, or \<open>p\<close> is an owned, non-empty, writable
    path and the file holds that encoding.  So no snapshot marked for removal is part of
    what is written, and a snapshot with the empty path is written nowhere (the file of
    the empty path is never touched).
  \<^item> The directories, the refused paths and the working directory are as they were.
\<close>

theorem save_persists_kept_records:
  assumes "wf_registry s" and "save s f = (r, f')"
  shows "((r = Inr None)
            = (\<forall>e \<in> set s. path (snd e) \<noteq> [] \<longrightarrow>
                 path (snd e) \<notin> set (denied f) \<and> path (snd e) \<notin> set (dirs f)))
         \<and> (r = Inr None
             \<or> (\<exists>q. r = Inr (Some (ErrOS ''write'' q)) \<and> q \<noteq> []
                   \<and> (\<exists>e \<in> set s. path (snd e) = q)
                   \<and> (q \<in> set (denied f) \<or> q \<in> set (dirs f))))
         \<and> (r = Inr None \<and> p \<noteq> [] \<and> (\<exists>e \<in> set s. path (snd e) = p) \<longrightarrow>
              (\<exists>data. encode (recordsFor s p) = Inr (data, None)
                 \<and> map_of (files f') p = Some data))
         \<and> (map_of (files f') p = map_of (files f) p
             \<or> (p \<noteq> [] \<and> (\<exists>e \<in> set s. path (snd e) = p)
                 \<and> p \<notin> set (denied f) \<and> p \<notin> set (dirs f)
                 \<and> (\<exists>data. encode (recordsFor s p) = Inr (data, None)
                       \<and> map_of (files f') p = Some data)))
         \<and> dirs f' = dirs f \<and> denied f' = denied f \<and> getwd f' = getwd f"
proof -
  let ?g = "groupLoop s []"
  have dg: "distinct (map fst ?g)" by (rule groupLoop_distinct) simp
  have mg: "map_of ?g p = (if grp s p = [] then None else Some (grp s p))"
    by (simp add: groupLoop_map_of)
  from assms(2) have S: "saveLoop ?g f = (r, f')" by (simp add: save_def)
  note L = saveLoop_file [OF dg S, of p]
  note R = saveLoop_result [OF S]
  have k: "keepLoop (grp s p) [] = recordsFor s p" by (rule keepLoop_grp [OF assms(1)])
  have own: "(\<forall>q \<in> fst ` set ?g. q \<noteq> [] \<longrightarrow> q \<notin> set (denied f) \<and> q \<notin> set (dirs f))
      = (\<forall>e \<in> set s. path (snd e) \<noteq> [] \<longrightarrow>
             path (snd e) \<notin> set (denied f) \<and> path (snd e) \<notin> set (dirs f))"
    by (simp only: Ball_def groupLoop_paths) blast
  have 1: "(r = Inr None)
            = (\<forall>e \<in> set s. path (snd e) \<noteq> [] \<longrightarrow>
                 path (snd e) \<notin> set (denied f) \<and> path (snd e) \<notin> set (dirs f))"
    using R own by simp
  have 2: "r = Inr None
             \<or> (\<exists>q. r = Inr (Some (ErrOS ''write'' q)) \<and> q \<noteq> []
                   \<and> (\<exists>e \<in> set s. path (snd e) = q)
                   \<and> (q \<in> set (denied f) \<or> q \<in> set (dirs f)))"
    using R by (simp only: groupLoop_paths) blast
  have 3: "r = Inr None \<and> p \<noteq> [] \<and> (\<exists>e \<in> set s. path (snd e) = p) \<longrightarrow>
              (\<exists>data. encode (recordsFor s p) = Inr (data, None)
                 \<and> map_of (files f') p = Some data)"
    using L mg k grp_nonempty [of s p] by (auto split: if_splits)
  have 4: "map_of (files f') p = map_of (files f) p
             \<or> (p \<noteq> [] \<and> (\<exists>e \<in> set s. path (snd e) = p)
                 \<and> p \<notin> set (denied f) \<and> p \<notin> set (dirs f)
                 \<and> (\<exists>data. encode (recordsFor s p) = Inr (data, None)
                       \<and> map_of (files f') p = Some data))"
  proof (cases "p \<in> set (denied f) \<or> p \<in> set (dirs f)")
    case True
    from saveLoop_unwritable [OF True S] show ?thesis by simp
  next
    case False
    then show ?thesis
      using L mg k grp_nonempty [of s p] by (auto split: if_splits)
  qed
  have 5: "dirs f' = dirs f \<and> denied f' = denied f \<and> getwd f' = getwd f"
    using R by simp
  from 1 2 3 4 5 show ?thesis by blast
qed

theorem save_persists_kept_records_witness:
  "wf_registry sample_registry
   \<and> fst (save sample_registry sample_fs) = Inr None
   \<and> map_of (files (snd (save sample_registry sample_fs))) ''/w/pkg/__snapshots__/pkg.snapshot''
       = Some (''/* snapshot: a */'' @ [NL] @ ''1'' @ [NL, NL] @ ''/* snapshot: b */'' @ [NL] @ ''2'')
   \<and> map_of (files (snd (save sample_registry sample_fs))) ''/w/pkg/__snapshots__/other.snapshot''
       = Some []
   \<and> map_of (files (snd (save sample_registry sample_fs))) [] = None"
proof -
  define r where "r = fst (save sample_registry sample_fs)"
  define f' where "f' = snd (save sample_registry sample_fs)"
  define P1 where "P1 = ''/w/pkg/__snapshots__/pkg.snapshot''"
  define P2 where "P2 = ''/w/pkg/__snapshots__/other.snapshot''"
  define D1 where
    "D1 = ''/* snapshot: a */'' @ [NL] @ ''1'' @ [NL, NL] @ ''/* snapshot: b */'' @ [NL] @ ''2''"
  have sv: "save sample_registry sample_fs = (r, f')" by (simp add: r_def f'_def)
  have wf: "wf_registry sample_registry" by code_simp
  note T = save_persists_kept_records [OF wf sv]
  have "\<forall>e \<in> set sample_registry. path (snd e) \<noteq> [] \<longrightarrow>
          path (snd e) \<notin> set (denied sample_fs) \<and> path (snd e) \<notin> set (dirs sample_fs)"
    by code_simp
  with T [of "[]"] have ok: "r = Inr None" by blast
  have e1: "encode (recordsFor sample_registry P1) = Inr (D1, None)"
    unfolding P1_def D1_def by code_simp
  have e2: "encode (recordsFor sample_registry P2) = Inr ([], None)"
    unfolding P2_def by code_simp
  have in1: "\<exists>e \<in> set sample_registry. path (snd e) = P1"
    unfolding P1_def by (simp add: sample_registry_def)
  have in2: "\<exists>e \<in> set sample_registry. path (snd e) = P2"
    unfolding P2_def by (simp add: sample_registry_def)
  have ne1: "P1 \<noteq> []" and ne2: "P2 \<noteq> []" by (simp_all add: P1_def P2_def)
  have w1: "map_of (files f') P1 = Some D1"
    using T [of P1] ok in1 ne1 e1 by auto
  have w2: "map_of (files f') P2 = Some []"
    using T [of P2] ok in2 ne2 e2 by auto
  have "map_of (files f') [] = map_of (files sample_fs) []"
    using T [of "[]"] by auto
  then have w3: "map_of (files f') [] = None" by (simp add: sample_fs_def)
  show ?thesis
    using wf ok w1 w2 w3 unfolding r_def f'_def P1_def P2_def D1_def by (intro conjI)
qed

section \<open>Key substitution\<close>

lemma length_updateSlice [simp]: "length (updateSlice key value s) = length s"
  by (induction s) simp_all















text \<open>
  Two substitutions of scalars under different keys commute.  The keys of the table of
  defaults are different from one another (it is a Go map), so the order in which
  \<^verbatim>\<open>jsonBodyCleanup\<close> takes them, which Go leaves open, does not change its result.
\<close>

lemma updateEntry_scalar:
  "isScalar v \<Longrightarrow> updateEntry key newv k v = (if k = key then newv else v)"
  by (cases v) simp_all

lemma substitution_commutes:
  assumes "k1 \<noteq> k2" and "isScalar v1" and "isScalar v2"
  shows "updateMap k1 v1 (updateMap k2 v2 m) = updateMap k2 v2 (updateMap k1 v1 m)"
    and "updateEntry k1 v1 k (updateEntry k2 v2 k v) = updateEntry k2 v2 k (updateEntry k1 v1 k v)"
    and "updateSlice k1 v1 (updateSlice k2 v2 s) = updateSlice k2 v2 (updateSlice k1 v1 s)"
  using assms
proof (induction k1 v1 m and k1 v1 k v and k1 v1 s
    rule: updateMap_updateEntry_updateSlice.induct)
  case (1 key newv)
  show ?case by simp
next
  case (2 key newv k v m)
  from "2.IH" [OF "2.prems"] show ?case by (simp del: updateEntry.simps)
next
  case (3 key newv k v)
  show ?case
  proof (cases "isScalar v")
    case True
    with "3.prems" show ?thesis by (auto simp: updateEntry_scalar simp del: updateEntry.simps)
  next
    case False
    then consider (slice) s where "v = JSlice s" | (map) m where "v = JMap m"
      by (cases v) auto
    then show ?thesis
    proof cases
      case slice
      from "3.IH"(1) [OF slice "3.prems"] slice show ?thesis by simp
    next
      case map
      from "3.IH"(2) [OF map "3.prems"] map show ?thesis by simp
    qed
  qed
next
  case (4 key newv)
  show ?case by simp
next
  case (5 key newv e s)
  show ?case
  proof (cases "\<exists>m. e = JMap m")
    case True
    then obtain m where m: "e = JMap m" ..
    from "5.IH"(1) [OF m "5.prems"] "5.IH"(2) [OF "5.prems"] m show ?thesis by simp
  next
    case False
    from "5.IH"(2) [OF "5.prems"] False show ?thesis by (cases e) simp_all
  qed
qed




section \<open>Decoding and encoding a snapshot file\<close>

lemma SplitAfterN_newline:
  "SplitAfterN s [NL] 2 =
     (if NL \<in> set s
      then [takeWhile (\<lambda>x. x \<noteq> NL) s @ [NL], drop (length (takeWhile (\<lambda>x. x \<noteq> NL) s) + 1) s]
      else [s])"
proof (cases "NL \<in> set s")
  case False
  then have "Index s [NL] = None" by (simp add: Index_single)
  then have "splitLoop s [NL] 1 k = [s]" for k by (cases k) simp_all
  with False show ?thesis by (simp add: SplitAfterN_def genSplit_def Let_def)
next
  case True
  let ?m = "length (takeWhile (\<lambda>x. x \<noteq> NL) s)"
  have I: "Index s [NL] = Some ?m" using True by (simp add: Index_single)
  have "s \<noteq> []" using True by auto
  then have "\<not> (2 > length s + 1)" by (cases s) auto
  then have "SplitAfterN s [NL] 2 = splitLoop s [NL] 1 (Suc 0)"
    by (simp add: SplitAfterN_def genSplit_def Let_def)
  also have "\<dots> = [take (?m + 1) s, drop (?m + 1) s]" by (simp add: I)
  also have "take (?m + 1) s = takeWhile (\<lambda>x. x \<noteq> NL) s @ [NL]"
  proof -
    have "s = takeWhile (\<lambda>x. x \<noteq> NL) s @ dropWhile (\<lambda>x. x \<noteq> NL) s" by simp
    moreover have "dropWhile (\<lambda>x. x \<noteq> NL) s \<noteq> []" using True by (simp add: dropWhile_eq_Nil_conv)
    then obtain r where "dropWhile (\<lambda>x. x \<noteq> NL) s = NL # r"
      using hd_dropWhile [of "\<lambda>x. x \<noteq> NL" s] by (cases "dropWhile (\<lambda>x. x \<noteq> NL) s") auto
    ultimately have "s = takeWhile (\<lambda>x. x \<noteq> NL) s @ NL # r" by simp
    then have "take (?m + 1) s = take (?m + 1) (takeWhile (\<lambda>x. x \<noteq> NL) s @ NL # r)" by simp
    then show ?thesis by simp
  qed
  finally show ?thesis using True by simp
qed

lemma decodeLoop_panic:
  "decodeLoop pieces acc = Inl e \<Longrightarrow> e = PanicIndexOutOfRange 1 1"
proof (induction pieces arbitrary: acc)
  case Nil
  then show ?case by simp
next
  case (Cons s pieces)
  show ?case
  proof (cases "s = []")
    case True
    with Cons show ?thesis by simp
  next
    case False
    show ?thesis
    proof (cases "NL \<in> set s")
      case True
      with Cons.prems False show ?thesis
        by (auto simp: SplitAfterN_newline index_def Let_def dest: Cons.IH)
    next
      case n: False
      with Cons.prems False show ?thesis
        by (simp add: SplitAfterN_newline index_def Let_def)
    qed
  qed
qed

lemma decodeLoop_returns_iff:
  "(\<exists>snaps. decodeLoop pieces acc = Inr snaps) = list_all (\<lambda>s. s = [] \<or> NL \<in> set s) pieces"
proof (induction pieces arbitrary: acc)
  case Nil
  then show ?case by simp
next
  case (Cons s pieces)
  show ?case
  proof (cases "s = []")
    case True
    with Cons show ?thesis by simp
  next
    case False
    show ?thesis
    proof (cases "NL \<in> set s")
      case True
      with False show ?thesis
        by (simp add: SplitAfterN_newline index_def Let_def Cons.IH)
    next
      case n: False
      with False show ?thesis
        by (simp add: SplitAfterN_newline index_def Let_def)
    qed
  qed
qed

text \<open>
  What \<^verbatim>\<open>decode\<close> does on any input: it never returns an error; it returns a record set
  exactly when every non-empty piece between two delimiters holds a newline, and
  otherwise it panics on the index \<^verbatim>\<open>components[1]\<close>.
\<close>

lemma decode_result:
  "(decode data = Inl e \<longrightarrow> e = PanicIndexOutOfRange 1 1)
   \<and> (decode data = Inr (snaps, err) \<longrightarrow> err = None)
   \<and> ((\<exists>snaps. decode data = Inr (snaps, None))
        = list_all (\<lambda>s. s = [] \<or> NL \<in> set s) (Split data snapshotSeparator))"
proof (intro conjI impI)
  assume "decode data = Inl e"
  then show "e = PanicIndexOutOfRange 1 1"
    by (auto simp: decode_def split: sum.splits dest: decodeLoop_panic)
next
  assume "decode data = Inr (snaps, err)"
  then show "err = None" by (auto simp: decode_def split: sum.splits)
next
  have "(\<exists>snaps. decode data = Inr (snaps, None))
      = (\<exists>snaps. decodeLoop (Split data snapshotSeparator) [] = Inr snaps)"
    by (auto simp: decode_def split: sum.splits)
  then show "(\<exists>snaps. decode data = Inr (snaps, None))
      = list_all (\<lambda>s. s = [] \<or> NL \<in> set s) (Split data snapshotSeparator)"
    by (simp add: decodeLoop_returns_iff)
qed

text \<open>
  Claim C9.  \<^verbatim>\<open>decode\<close> does not return on every input.  On a delimiter line that no
  newline ends, and on any text without a delimiter and without a newline, the index
  \<^verbatim>\<open>components[1]\<close> is out of range and \<^verbatim>\<open>decode\<close> panics; it returns neither a record
  set nor an error.
\<close>

theorem decode_panics_without_newline:
  "decode ''/* snapshot: greet */'' = Inl (PanicIndexOutOfRange 1 1)
   \<and> decode ''hello'' = Inl (PanicIndexOutOfRange 1 1)"
  by code_simp

text \<open>
  Claim C4.  A file of two well-formed blocks whose last identifier has the empty value:
  \<^verbatim>\<open>decode\<close> yields the two records; \<^verbatim>\<open>encode\<close> of them trims the text it built, which
  removes the newline that ends the last delimiter line; \<^verbatim>\<open>decode\<close> panics on that text.
  So decoding the encoding of the decoded records does not give the same records.
\<close>

theorem roundtrip_panics_on_empty_last_value:
  "decode (block ''a'' ''hello'' @ block ''b'' []) =
     Inr ([(''a'', \<lparr>id' = ''a'', value' = ''hello'', path = [], evaluated = False, shouldRemove = False\<rparr>),
           (''b'', \<lparr>id' = ''b'', value' = [], path = [], evaluated = False, shouldRemove = False\<rparr>)],
          None)
   \<and> encode [(''a'', \<lparr>id' = ''a'', value' = ''hello'', path = [], evaluated = False, shouldRemove = False\<rparr>),
              (''b'', \<lparr>id' = ''b'', value' = [], path = [], evaluated = False, shouldRemove = False\<rparr>)] =
     Inr (''/* snapshot: a */'' @ [NL] @ ''hello'' @ [NL, NL] @ ''/* snapshot: b */'', None)
   \<and> decode (''/* snapshot: a */'' @ [NL] @ ''hello'' @ [NL, NL] @ ''/* snapshot: b */'') =
     Inl (PanicIndexOutOfRange 1 1)"
  by code_simp

text \<open>
  With a last value that is not empty the same file round-trips: decoding the encoding
  of the decoded records gives the records again.
\<close>

lemma roundtrip_example:
  "decode (block ''a'' [] @ block ''b'' ''hello'') =
     Inr ([(''a'', \<lparr>id' = ''a'', value' = [], path = [], evaluated = False, shouldRemove = False\<rparr>),
           (''b'', \<lparr>id' = ''b'', value' = ''hello'', path = [], evaluated = False, shouldRemove = False\<rparr>)],
          None)
   \<and> encode [(''a'', \<lparr>id' = ''a'', value' = [], path = [], evaluated = False, shouldRemove = False\<rparr>),
              (''b'', \<lparr>id' = ''b'', value' = ''hello'', path = [], evaluated = False, shouldRemove = False\<rparr>)] =
     Inr (''/* snapshot: a */'' @ [NL, NL, NL] @ ''/* snapshot: b */'' @ [NL] @ ''hello'', None)
   \<and> decode (''/* snapshot: a */'' @ [NL, NL, NL] @ ''/* snapshot: b */'' @ [NL] @ ''hello'') =
     Inr ([(''a'', \<lparr>id' = ''a'', value' = [], path = [], evaluated = False, shouldRemove = False\<rparr>),
           (''b'', \<lparr>id' = ''b'', value' = ''hello'', path = [], evaluated = False, shouldRemove = False\<rparr>)],
          None)"
  by code_simp

section \<open>Comparing two HTTP dumps with empty bodies\<close>

lemma TrimSpace_Nil: "TrimSpace [] = []"
  by code_simp

text \<open>
  Claim C1.  When the bodies of both dumps are empty, the header lines of both are equal
  after the clean-up, the text diff of equal texts has no difference and the JSON
  comparison reports two empty bodies as both invalid, then
  \<^verbatim>\<open>compareResultsHTTPRequestJSON\<close> returns the text of one newline, not the empty text:
  the newline is appended before the \<^verbatim>\<open>switch\<close> whose both-empty case returns.
\<close>

theorem compareResultsHTTPRequestJSON_empty_bodies:
  assumes "getConfig st = (c, None)"
    and "configCleanup L c (plainToInternalRequest existing) = Inr e"
    and "configCleanup L c (plainToInternalRequest new) = Inr n"
    and "body e = []" and "body n = []"
    and "header e = header n"
    and "list_all (\<lambda>d. fst d = DiffEqual) (DiffMain L (headerDump e) (headerDump n))"
    and "fst (Compare L [] []) = BothArgsAreInvalidJson"
  shows "compareResultsHTTPRequestJSON L existing new st = (Inr [NL], st)"
proof -
  have je: "jsonBodyCleanup L c e = Inr (None, e)" and jn: "jsonBodyCleanup L c n = Inr (None, n)"
    using assms(4,5) by (simp_all add: jsonBodyCleanup_def TrimSpace_Nil)
  have ne: "filter (\<lambda>d. fst d \<noteq> DiffEqual) (DiffMain L (headerDump e) (headerDump n)) = []"
    using assms(7) by (simp add: filter_empty_conv list_all_iff)
  obtain x where cmp: "Compare L [] [] = (BothArgsAreInvalidJson, x)"
    using assms(8) by (cases "Compare L [] []") simp
  show ?thesis
    unfolding compareResultsHTTPRequestJSON_def Let_def
    by (simp add: assms(1,2,3,4,5) je jn ne cmp)
qed

theorem compareResultsHTTPRequestJSON_empty_bodies_witness:
  "compareResultsHTTPRequestJSON standins sample_request sample_request sample_state
     = (Inr [NL], sample_state)"
proof (rule compareResultsHTTPRequestJSON_empty_bodies)
  show "getConfig sample_state = (None, None)" by (simp add: sample_state_def)
  show "configCleanup standins None (plainToInternalRequest sample_request)
      = Inr (plainToInternalRequest sample_request)"
    by (simp add: configCleanup_def)
  show "configCleanup standins None (plainToInternalRequest sample_request)
      = Inr (plainToInternalRequest sample_request)"
    by (simp add: configCleanup_def)
  show "body (plainToInternalRequest sample_request) = []" by code_simp
  show "body (plainToInternalRequest sample_request) = []" by code_simp
  show "header (plainToInternalRequest sample_request) = header (plainToInternalRequest sample_request)"
    by (rule refl)
  show "list_all (\<lambda>d. fst d = DiffEqual)
      (DiffMain standins (headerDump (plainToInternalRequest sample_request))
         (headerDump (plainToInternalRequest sample_request)))"
    by (simp add: standins_def standin_DiffMain_def)
  show "fst (Compare standins [] []) = BothArgsAreInvalidJson"
    by (simp add: standins_def standin_Compare_def)
qed

section \<open>Asserting the same value twice\<close>

lemma reloadSnapshots_frame:
  "\<exists>f a. snd (reloadSnapshots st) = st\<lparr>fs := f, allSnapshots := a\<rparr>"
proof -
  have s: "st\<lparr>fs := f\<rparr> = st\<lparr>fs := f, allSnapshots := allSnapshots st\<rparr>" for f by simp
  show ?thesis
    unfolding reloadSnapshots_def
    by (auto simp: Let_def split: prod.splits option.splits sum.splits intro: s)
qed

lemma loadSnapshots_frame:
  "\<exists>f a. snd (loadSnapshots st) = st\<lparr>fs := f, allSnapshots := a, snapshotsLoaded := True\<rparr>"
proof (cases "snapshotsLoaded st")
  case True
  then have "snd (loadSnapshots st) = st\<lparr>fs := fs st, allSnapshots := allSnapshots st, snapshotsLoaded := True\<rparr>"
    by (simp add: loadSnapshots_def)
  then show ?thesis by blast
next
  case False
  obtain f a where "snd (reloadSnapshots st) = st\<lparr>fs := f, allSnapshots := a\<rparr>"
    using reloadSnapshots_frame by blast
  with False have "snd (loadSnapshots st) = st\<lparr>fs := f, allSnapshots := a, snapshotsLoaded := True\<rparr>"
    by (cases "reloadSnapshots st") (simp add: loadSnapshots_def)
  then show ?thesis by blast
qed

lemma getSnapshot_frame:
  "\<exists>f a. snd (getSnapshot i st) = st\<lparr>fs := f, allSnapshots := a, snapshotsLoaded := True\<rparr>"
  using loadSnapshots_frame [of st]
  by (cases "loadSnapshots st") (auto simp: getSnapshot_def split: sum.splits option.splits)

lemma writeSnapshot_created:
  assumes "writeSnapshot i v u st = (Inr (Some s, None), st1)"
  shows "snapshotsLoaded st1 \<and> getConfig st1 = getConfig st \<and> shouldUpdate st1 = shouldUpdate st
         \<and> map_of (entries st1) i = Some s
         \<and> id' s = i \<and> value' s = v \<and> evaluated s = u"
proof -
  obtain r sa where l: "loadSnapshots st = (r, sa)" by (cases "loadSnapshots st")
  obtain f a where sa: "sa = st\<lparr>fs := f, allSnapshots := a, snapshotsLoaded := True\<rparr>"
    using loadSnapshots_frame [of st] l by auto
  show ?thesis
    using assms l unfolding writeSnapshot_def sa
    by (auto simp: isValid_def Let_def AList.update_conv' entries_def
        split: prod.splits option.splits sum.splits if_splits)
qed

lemma compareResults_equal:
  assumes "getConfig st = (c, None)"
    and "list_all (\<lambda>d. fst d = DiffEqual) (DiffMain L x x)"
    and "ToUnified L i x x = []"
  shows "compareResults L i x x st = (Inr [], st)"
  using assms by (auto simp: compareResults_def Let_def filter_empty_conv list_all_iff
      split: option.splits)

lemma setEvaluated_entries:
  "entries (setEvaluated i st)
     = map (\<lambda>(k, s). if k = i then (k, s\<lparr>evaluated := True\<rparr>) else (k, s)) (entries st)"
  by (cases "allSnapshots st") (simp_all add: setEvaluated_def entries_def)

lemma setEvaluated_idem: "setEvaluated i (setEvaluated i st) = setEvaluated i st"
proof -
  let ?f = "\<lambda>(k, s). if k = i then (k, s\<lparr>evaluated := True\<rparr>) else (k, s::snapshot)"
  have "map ?f (map ?f m) = map ?f m" for m :: snapshots by (induction m) auto
  then show ?thesis
    by (cases "allSnapshots st") (simp_all add: setEvaluated_def del: map_map)
qed

lemma map_of_setEvaluated:
  "map_of (entries st) i = Some s \<Longrightarrow>
     map_of (entries (setEvaluated i st)) i = Some (s\<lparr>evaluated := True\<rparr>)"
proof -
  let ?f = "\<lambda>(k, s). if k = i then (k, s\<lparr>evaluated := True\<rparr>) else (k, s::snapshot)"
  have "map_of m i = Some s \<Longrightarrow> map_of (map ?f m) i = Some (s\<lparr>evaluated := True\<rparr>)"
    for m :: snapshots by (induction m) (auto split: if_splits)
  then show "map_of (entries st) i = Some s \<Longrightarrow> ?thesis"
    by (simp add: setEvaluated_entries)
qed

text \<open>
  For a value without leading or trailing white space the second assertion changes
  nothing, provided the configuration loads and the diff of a text with itself is empty.
\<close>

lemma second_assert_of_trimmed_value:
  assumes first: "createOrUpdateSnapshot L i data SnapshotGeneric st = (Inr (), st1)"
    and upd: "shouldUpdate st"
    and new: "fst (getSnapshot i st) = Inr None"
    and trimmed: "TrimSpace data = data"
    and cfg: "getConfig st = (c, None)"
    and diff: "list_all (\<lambda>d. fst d = DiffEqual) (DiffMain L data data)"
    and uni: "ToUnified L i data data = []"
  shows "createOrUpdateSnapshot L i data SnapshotGeneric st1 = (Inr (), st1)"
proof -
  obtain sa where g: "getSnapshot i st = (Inr None, sa)"
    using new by (cases "getSnapshot i st") simp
  obtain f a where sa: "sa = st\<lparr>fs := f, allSnapshots := a, snapshotsLoaded := True\<rparr>"
    using getSnapshot_frame [of i st] g by auto
  let ?s2 = "Printf (''Creating snapshot '' @ [CHR 0x60] @ i @ [CHR 0x60, NL]) sa"
  have u2: "shouldUpdate sa" using upd sa by simp
  obtain r3 st3 where w: "createSnapshot i data ?s2 = (r3, st3)"
    by (cases "createSnapshot i data ?s2")
  from first g u2 w obtain s where r3: "r3 = Inr (Some s, None)" and st1: "st1 = setEvaluated i st3"
    by (auto simp: createOrUpdateSnapshot_def t_Fatal_def split: sum.splits option.splits prod.splits)
  from w r3 have "writeSnapshot i data False ?s2 = (Inr (Some s, None), st3)"
    by (simp add: createSnapshot_def)
  from writeSnapshot_created [OF this]
  have l3: "snapshotsLoaded st3" and c3: "getConfig st3 = getConfig ?s2"
    and m3: "map_of (entries st3) i = Some s" and v: "value' s = data"
    by simp_all
  have l1: "snapshotsLoaded st1" using l3 st1 by (simp add: setEvaluated_def)
  have c1: "getConfig st1 = (c, None)"
    using c3 cfg st1 sa by (simp add: setEvaluated_def Printf_def)
  have m1: "map_of (entries st1) i = Some (s\<lparr>evaluated := True\<rparr>)"
    using m3 st1 by (simp add: map_of_setEvaluated)
  have g1: "getSnapshot i st1 = (Inr (Some (s\<lparr>evaluated := True\<rparr>)), st1)"
    using l1 m1 by (simp add: getSnapshot_def loadSnapshots_def)
  have e1: "setEvaluated i st1 = st1" using st1 by (simp add: setEvaluated_idem)
  have cmp: "compareResults L i data data st1 = (Inr [], st1)"
    using c1 diff uni by (rule compareResults_equal)
  show ?thesis
    unfolding createOrUpdateSnapshot_def
    by (simp add: g1 e1 v trimmed cmp SnapshotGeneric_def SnapshotHTTPRespJSON_def)
qed

lemma compareResults_different:
  assumes "getConfig st = (c, None)"
    and "case c of None \<Rightarrow> True | Some cfg \<Rightarrow> \<not> UnifiedDiff cfg"
    and "\<not> list_all (\<lambda>d. fst d = DiffEqual) (DiffMain L a b)"
  shows "compareResults L i a b st = (Inr (DiffPrettyText L (DiffMain L a b)), st)"
  using assms by (auto simp: compareResults_def Let_def filter_empty_conv list_all_iff
      split: option.splits)

text \<open>
  Claim C3.  A snapshot is created by a first assertion in update mode, and the same
  value is asserted again under the same identifier.  The first call stores the value
  as given, the second compares the stored value with the trimmed value.  When the text
  diff of the two has a difference (as it has whenever the value starts or ends with
  white space), the diff the second call gets is not empty, and the call takes the
  update branch: it prints the update notice and rewrites the snapshot through
  \<^verbatim>\<open>updateSnapshot\<close>.
\<close>

theorem second_assert_of_untrimmed_value:
  assumes first: "createOrUpdateSnapshot L i data SnapshotGeneric st = (Inr (), st1)"
    and upd: "shouldUpdate st"
    and new: "fst (getSnapshot i st) = Inr None"
    and cfg: "getConfig st = (c, None)"
    and plain: "case c of None \<Rightarrow> True | Some cfg \<Rightarrow> \<not> UnifiedDiff cfg"
    and diff: "\<not> list_all (\<lambda>d. fst d = DiffEqual) (DiffMain L data (TrimSpace data))"
    and pretty: "DiffPrettyText L (DiffMain L data (TrimSpace data)) \<noteq> []"
  shows "fst (compareResults L i data (TrimSpace data) st1) \<noteq> Inr []
    \<and> createOrUpdateSnapshot L i data SnapshotGeneric st1 =
        (case updateSnapshot i data
                (Printf (''Updating snapshot '' @ [CHR 0x60] @ i @ [CHR 0x60, NL]) st1) of
           (Inl e, st5) \<Rightarrow> (Inl e, st5)
         | (Inr (_, Some err), st5) \<Rightarrow> t_Fatal err st5
         | (Inr (_, None), st5) \<Rightarrow> (Inr (), st5))"
proof -
  obtain sa where g: "getSnapshot i st = (Inr None, sa)"
    using new by (cases "getSnapshot i st") simp
  obtain f a where sa: "sa = st\<lparr>fs := f, allSnapshots := a, snapshotsLoaded := True\<rparr>"
    using getSnapshot_frame [of i st] g by auto
  let ?s2 = "Printf (''Creating snapshot '' @ [CHR 0x60] @ i @ [CHR 0x60, NL]) sa"
  have u2: "shouldUpdate sa" using upd sa by simp
  obtain r3 st3 where w: "createSnapshot i data ?s2 = (r3, st3)"
    by (cases "createSnapshot i data ?s2")
  from first g u2 w obtain s where r3: "r3 = Inr (Some s, None)" and st1: "st1 = setEvaluated i st3"
    by (auto simp: createOrUpdateSnapshot_def t_Fatal_def split: sum.splits option.splits prod.splits)
  from w r3 have "writeSnapshot i data False ?s2 = (Inr (Some s, None), st3)"
    by (simp add: createSnapshot_def)
  from writeSnapshot_created [OF this]
  have l3: "snapshotsLoaded st3" and c3: "getConfig st3 = getConfig ?s2"
    and u3: "shouldUpdate st3 = shouldUpdate ?s2"
    and m3: "map_of (entries st3) i = Some s" and v: "value' s = data"
    by simp_all
  have l1: "snapshotsLoaded st1" using l3 st1 by (simp add: setEvaluated_def)
  have c1: "getConfig st1 = (c, None)"
    using c3 cfg st1 sa by (simp add: setEvaluated_def Printf_def)
  have u1: "shouldUpdate st1"
    using u3 upd st1 sa by (simp add: setEvaluated_def Printf_def)
  have m1: "map_of (entries st1) i = Some (s\<lparr>evaluated := True\<rparr>)"
    using m3 st1 by (simp add: map_of_setEvaluated)
  have g1: "getSnapshot i st1 = (Inr (Some (s\<lparr>evaluated := True\<rparr>)), st1)"
    using l1 m1 by (simp add: getSnapshot_def loadSnapshots_def)
  have e1: "setEvaluated i st1 = st1" using st1 by (simp add: setEvaluated_idem)
  have cmp: "compareResults L i data (TrimSpace data) st1
      = (Inr (DiffPrettyText L (DiffMain L data (TrimSpace data))), st1)"
    using c1 plain diff by (rule compareResults_different)
  have a: "fst (compareResults L i data (TrimSpace data) st1) \<noteq> Inr []"
    using cmp pretty by simp
  have b: "createOrUpdateSnapshot L i data SnapshotGeneric st1 =
        (case updateSnapshot i data
                (Printf (''Updating snapshot '' @ [CHR 0x60] @ i @ [CHR 0x60, NL]) st1) of
           (Inl e, st5) \<Rightarrow> (Inl e, st5)
         | (Inr (_, Some err), st5) \<Rightarrow> t_Fatal err st5
         | (Inr (_, None), st5) \<Rightarrow> (Inr (), st5))"
    unfolding createOrUpdateSnapshot_def
    by (simp add: g1 e1 v cmp pretty u1 SnapshotGeneric_def SnapshotHTTPRespJSON_def Let_def)
  from a b show ?thesis ..
qed

theorem second_assert_of_untrimmed_value_witness:
  "fst (compareResults standins ''greet'' (''hello'' @ [NL]) (TrimSpace (''hello'' @ [NL]))
        (snd (createOrUpdateSnapshot standins ''greet'' (''hello'' @ [NL]) SnapshotGeneric
           (sample_state\<lparr>shouldUpdate := True\<rparr>)))) \<noteq> Inr []
   \<and> createOrUpdateSnapshot standins ''greet'' (''hello'' @ [NL]) SnapshotGeneric
        (snd (createOrUpdateSnapshot standins ''greet'' (''hello'' @ [NL]) SnapshotGeneric
           (sample_state\<lparr>shouldUpdate := True\<rparr>))) =
        (case updateSnapshot ''greet'' (''hello'' @ [NL])
                (Printf (''Updating snapshot '' @ [CHR 0x60] @ ''greet'' @ [CHR 0x60, NL])
                   (snd (createOrUpdateSnapshot standins ''greet'' (''hello'' @ [NL]) SnapshotGeneric
                      (sample_state\<lparr>shouldUpdate := True\<rparr>)))) of
           (Inl e, st5) \<Rightarrow> (Inl e, st5)
         | (Inr (_, Some err), st5) \<Rightarrow> t_Fatal err st5
         | (Inr (_, None), st5) \<Rightarrow> (Inr (), st5))"
proof (rule second_assert_of_untrimmed_value)
  let ?st = "sample_state\<lparr>shouldUpdate := True\<rparr>"
  have "fst (createOrUpdateSnapshot standins ''greet'' (''hello'' @ [NL]) SnapshotGeneric ?st) = Inr ()"
    by code_simp
  then show "createOrUpdateSnapshot standins ''greet'' (''hello'' @ [NL]) SnapshotGeneric ?st
      = (Inr (), snd (createOrUpdateSnapshot standins ''greet'' (''hello'' @ [NL]) SnapshotGeneric ?st))"
    by (cases "createOrUpdateSnapshot standins ''greet'' (''hello'' @ [NL]) SnapshotGeneric ?st") simp
  show "shouldUpdate ?st" by simp
  show "fst (getSnapshot ''greet'' ?st) = Inr None" by code_simp
  show "getConfig ?st = (None, None)" by (simp add: sample_state_def)
  show "case None of None \<Rightarrow> True | Some cfg \<Rightarrow> \<not> UnifiedDiff cfg" by simp
  show "\<not> list_all (\<lambda>d. fst d = DiffEqual)
      (DiffMain standins (''hello'' @ [NL]) (TrimSpace (''hello'' @ [NL])))"
    by code_simp
  show "DiffPrettyText standins (DiffMain standins (''hello'' @ [NL]) (TrimSpace (''hello'' @ [NL]))) \<noteq> []"
    by code_simp
qed

text \<open>
  The values in the case of the witness: the value \<^verbatim>\<open>hello\<close> followed by a newline is
  stored as given, the diff with \<^verbatim>\<open>hello\<close> marks the newline as deleted, and both
  notices are printed.
\<close>

lemma second_assert_updates_untrimmed_value:
  "map_of (entries (snd (createOrUpdateSnapshot standins ''greet'' (''hello'' @ [NL]) SnapshotGeneric
        (sample_state\<lparr>shouldUpdate := True\<rparr>)))) ''greet''
     = Some \<lparr>id' = ''greet'', value' = ''hello'' @ [NL],
             path = ''/w/pkg/__snapshots__/pkg.snapshot'', evaluated = True, shouldRemove = False\<rparr>
   \<and> fst (compareResults standins ''greet'' (''hello'' @ [NL]) (TrimSpace (''hello'' @ [NL]))
        (snd (createOrUpdateSnapshot standins ''greet'' (''hello'' @ [NL]) SnapshotGeneric
           (sample_state\<lparr>shouldUpdate := True\<rparr>))))
     = Inr (''hello'' @ [CHR 0x1B] @ ''[31m'' @ [NL] @ [CHR 0x1B] @ ''[0m'')
   \<and> stdout (snd (createOrUpdateSnapshot standins ''greet'' (''hello'' @ [NL]) SnapshotGeneric
        (snd (createOrUpdateSnapshot standins ''greet'' (''hello'' @ [NL]) SnapshotGeneric
           (sample_state\<lparr>shouldUpdate := True\<rparr>)))))
     = [''Creating snapshot '' @ [CHR 0x60] @ ''greet'' @ [CHR 0x60, NL],
        ''Updating snapshot '' @ [CHR 0x60] @ ''greet'' @ [CHR 0x60, NL]]"
  by code_simp

end
